theory Spec2Isabelle
  imports Main "HOL-Library.Multiset"
begin

section \<open>Data model of node-zerox\<close>

text \<open>
  The enums and interfaces of \<^verbatim>\<open>types.ts\<close>.  JavaScript numbers are modelled as
  integers (page numbers, which may be negative in a page selector) or naturals (token
  counts and counters); \<^verbatim>\<open>undefined\<close> is \<open>None\<close>.
\<close>

datatype ModelProvider = BEDROCK | OPENAI | OtherProvider string

datatype PageStatus = SUCCESS | ERROR

datatype ErrorMode = THROW | IGNORE

datatype ModelCredentials =
    OpenAICredentials (apiKey: string)
  | BedrockCredentials (accessKeyId: "string option") (region: string)
      (secretAccessKey: "string option") (sessionToken: "string option")

text \<open>
  Everything that can be thrown.  The four validator messages of \<^verbatim>\<open>zerox\<close> and the
  string thrown after a failed download have their own constructors; a failure of an
  external collaborator carries its message.
\<close>

datatype error =
    MissingCredentials
  | MissingFilePath
  | SchemaRequired
  | MaintainFormatOCROnly
  | FailedToSave
  | TypeError string
  | ExternalError string

text \<open>The text of \<^verbatim>\<open>`${error}`\<close>.\<close>

fun error_text :: "error \<Rightarrow> string" where
  "error_text MissingCredentials = ''Error: Missing credentials''"
| "error_text MissingFilePath = ''Error: Missing file path''"
| "error_text SchemaRequired = ''Error: Schema is required for extraction mode''"
| "error_text MaintainFormatOCROnly = ''Error: Maintain format is only supported in OCR mode''"
| "error_text FailedToSave = ''Failed to save file to local drive''"
| "error_text (TypeError m) = ''TypeError: '' @ m"
| "error_text (ExternalError m) = m"

text \<open>Decimal rendering of a page number inside a template string.\<close>

fun show_nat :: "nat \<Rightarrow> string" where
  "show_nat n =
     (if n < 10 then [char_of (48 + n)]
      else show_nat (n div 10) @ [char_of (48 + n mod 10)])"

declare show_nat.simps [simp del]

definition show_int :: "int \<Rightarrow> string" where
  "show_int i = (if i < 0 then CHR ''-'' # show_nat (nat (- i)) else show_nat (nat i))"

record Page =
  content :: string
  contentLength :: nat
  page :: "int option"
  status :: PageStatus
  error :: "string option"
  inputTokens :: "nat option"
  outputTokens :: "nat option"

text \<open>The argument of an OCR completion request, and its processed response
  (\<^verbatim>\<open>CompletionProcessor.process\<close> applied to what the provider returned).\<close>

record CompletionArgs =
  c_image :: string
  c_maintainFormat :: bool
  c_priorPage :: string

record CompletionResponse =
  r_content :: string
  r_contentLength :: nat
  r_inputTokens :: nat
  r_outputTokens :: nat

record Summary =
  totalPages :: nat
  ocr :: "(nat \<times> nat) option"
  extraction :: "(nat \<times> nat) option"

text \<open>
  The values of schemas and of extracted fields: JSON data, as the provider returns it,
  and one more kind of object.  A plain object inherits the members of
  \<^verbatim>\<open>Object.prototype\<close>, so that reading \<^verbatim>\<open>extracted[key]\<close> can yield an inherited
  function; the per-page track stores what it reads in an entry \<open>{page, value}\<close>, and
  \<open>JFunEntry p f\<close> is the entry \<open>{page: p, value: Object.prototype[f]}\<close>.  Functions
  occur nowhere else.  An object is the list of its own properties in the order in
  which \<^verbatim>\<open>Object.keys\<close> and \<^verbatim>\<open>Object.entries\<close> enumerate them.
\<close>

datatype jv =
    JNull
  | JBool bool
  | JNum int
  | JStr string
  | JArr "jv list"
  | JObj "(string \<times> jv) list"
  | JFunEntry int string

type_synonym jobject = "(string \<times> jv) list"

text \<open>The own property of an object under a name.\<close>

fun obj_get :: "jobject \<Rightarrow> string \<Rightarrow> jv option" where
  "obj_get [] k = None"
| "obj_get ((k', v) # kvs) k = (if k' = k then Some v else obj_get kvs k)"

text \<open>
  The order of enumeration puts the array indices first, in ascending order: the
  canonical decimal strings of the numbers below \<open>2\<^sup>3\<^sup>2 - 1\<close>.  The other names follow
  in the order of their creation.
\<close>

definition digit :: "char \<Rightarrow> int option" where
  "digit c =
     map_of [(CHR ''0'', 0), (CHR ''1'', 1), (CHR ''2'', 2), (CHR ''3'', 3), (CHR ''4'', 4),
             (CHR ''5'', 5), (CHR ''6'', 6), (CHR ''7'', 7), (CHR ''8'', 8), (CHR ''9'', 9)] c"

fun decimal :: "string \<Rightarrow> int \<Rightarrow> int option" where
  "decimal [] n = Some n"
| "decimal (c # cs) n = (case digit c of None \<Rightarrow> None | Some d \<Rightarrow> decimal cs (10 * n + d))"

definition array_index :: "string \<Rightarrow> int option" where
  "array_index k =
     (case k of
        [] \<Rightarrow> None
      | c # cs \<Rightarrow>
          (if c = CHR ''0'' \<and> cs \<noteq> [] then None
           else (case decimal k 0 of
                   None \<Rightarrow> None
                 | Some n \<Rightarrow> (if n < 4294967295 then Some n else None))))"

fun insert_index :: "int \<Rightarrow> string \<Rightarrow> jv \<Rightarrow> jobject \<Rightarrow> jobject" where
  "insert_index n k v [] = [(k, v)]"
| "insert_index n k v ((k', v') # kvs) =
     (case array_index k' of
        None \<Rightarrow> (k, v) # (k', v') # kvs
      | Some m \<Rightarrow>
          (if m < n then (k', v') # insert_index n k v kvs else (k, v) # (k', v') # kvs))"

fun obj_update :: "jobject \<Rightarrow> string \<Rightarrow> jv \<Rightarrow> jobject" where
  "obj_update [] k v = []"
| "obj_update ((k', v') # kvs) k v =
     (if k' = k then (k, v) # kvs else (k', v') # obj_update kvs k v)"

text \<open>Writing an own data property: an existing one keeps its position, a new one
  takes its place in the order of enumeration.\<close>

definition obj_set :: "jobject \<Rightarrow> string \<Rightarrow> jv \<Rightarrow> jobject" where
  "obj_set kvs k v =
     (case obj_get kvs k of
        Some old \<Rightarrow> obj_update kvs k v
      | None \<Rightarrow>
          (case array_index k of
             None \<Rightarrow> kvs @ [(k, v)]
           | Some n \<Rightarrow> insert_index n k v kvs))"

text \<open>
  The names that a plain object inherits from \<^verbatim>\<open>Object.prototype\<close>.  Under
  \<^verbatim>\<open>__proto__\<close> sits an accessor: reading yields the prototype of the object, writing an
  object or \<^verbatim>\<open>null\<close> replaces it, writing any other value does nothing.  Under the
  other names sit functions, in writable data properties.
\<close>

definition object_prototype_names :: "string list" where
  "object_prototype_names =
     [''constructor'', ''__defineGetter__'', ''__defineSetter__'', ''hasOwnProperty'',
      ''__lookupGetter__'', ''__lookupSetter__'', ''isPrototypeOf'', ''propertyIsEnumerable'',
      ''toString'', ''valueOf'', ''__proto__'', ''toLocaleString'']"

definition inherited_name :: "string \<Rightarrow> bool" where
  "inherited_name k = (k \<in> set object_prototype_names)"

text \<open>What a property read yields: nothing, a value, or an inherited function.\<close>

datatype looked = Undefined | Value jv | Function string

text \<open>A name that no object on the prototype chain has as its own, looked up in
  \<^verbatim>\<open>Object.prototype\<close>, for an object whose prototype is \<open>p\<close>.\<close>

definition inherited :: "jv \<Rightarrow> string \<Rightarrow> looked" where
  "inherited p k =
     (if k = ''__proto__'' then Value p
      else if inherited_name k then Function k
      else Undefined)"

text \<open>\<^verbatim>\<open>obj[k]\<close> on a plain object: \<^verbatim>\<open>Object.prototype\<close> itself has no enumerable
  property.\<close>

definition js_get :: "jobject \<Rightarrow> string \<Rightarrow> looked" where
  "js_get obj k = (case obj_get obj k of Some v \<Rightarrow> Value v | None \<Rightarrow> inherited (JObj []) k)"

text \<open>\<^verbatim>\<open>!x\<close>: \<^verbatim>\<open>undefined\<close>, \<^verbatim>\<open>null\<close>, \<^verbatim>\<open>false\<close>, \<^verbatim>\<open>0\<close> and the empty string are
  falsy; arrays, objects and functions are truthy.\<close>

fun falsy_value :: "jv \<Rightarrow> bool" where
  "falsy_value JNull = True"
| "falsy_value (JBool b) = (\<not> b)"
| "falsy_value (JNum n) = (n = 0)"
| "falsy_value (JStr s) = (s = [])"
| "falsy_value (JArr xs) = False"
| "falsy_value (JObj kvs) = False"
| "falsy_value (JFunEntry p f) = False"

fun falsy :: "looked \<Rightarrow> bool" where
  "falsy Undefined = True"
| "falsy (Value v) = falsy_value v"
| "falsy (Function f) = False"

text \<open>\<^verbatim>\<open>pagesToConvertAsImages?: number | number[]\<close>; the number \<open>-1\<close> selects all pages.\<close>

datatype selector = Single int | Multiple "int list"

text \<open>The input of an extraction request: recognised text, or a list of image paths.\<close>

datatype extraction_input = TextInput string | ImagesInput "string list"

record ExtractionResponse =
  x_extracted :: "jobject option"
  x_inputTokens :: nat
  x_outputTokens :: nat

text \<open>
  The arguments of \<^verbatim>\<open>zerox\<close>, with the destructuring defaults applied.  The fields
  that are only handed through to a collaborator (\<^verbatim>\<open>imageDensity\<close>, \<^verbatim>\<open>imageHeight\<close>,
  \<^verbatim>\<open>llmParams\<close>, \<^verbatim>\<open>model\<close>, \<^verbatim>\<open>tempDir\<close>, \<^verbatim>\<open>trimEdges\<close>) and the two hooks, which are
  part of the environment below, are left out.
\<close>

record ZeroxArgs =
  cleanup :: bool
  concurrency :: nat
  correctOrientation :: bool
  credentials :: ModelCredentials
  errorMode :: ErrorMode
  extractOnly :: bool
  extractPerPage :: "string list option"
  filePath :: string
  maintainFormat :: bool
  maxRetries :: nat
  modelProvider :: ModelProvider
  openaiAPIKey :: string
  outputDir :: "string option"
  pagesToConvertAsImages :: selector
  schema :: "jv option"

text \<open>
  The collaborators of \<^verbatim>\<open>zerox\<close> that live outside the file: each is a parameter,
  giving the value it returns or the error it throws.  The completion client answers
  the \<open>n\<close>-th request it receives (\<open>n\<close> counts the requests issued before), so that a
  retry of the same request may get another answer.  \<open>cleanupImage\<close> stands for the three
  awaited steps before the first request of a page (\<^verbatim>\<open>fs.readFile\<close>, \<^verbatim>\<open>cleanupImage\<close>,
  \<^verbatim>\<open>onPreProcess\<close>) and yields the corrected buffer; \<open>getTesseractScheduler\<close> stands for
  \<^verbatim>\<open>getTesseractScheduler\<close> followed by \<^verbatim>\<open>addWorkersToTesseractScheduler\<close>.
\<close>

record env =
  getTesseractScheduler :: "error option"
  ensureDir :: "error option"
  downloadFile :: "error + string \<times> string"
  convertFileToPdf :: "error + string"
  convertPdfToImages :: "selector \<Rightarrow> error + string list"
  prepareWorkersForImageProcessing :: "error option"
  createModel :: "ModelProvider \<Rightarrow> ModelCredentials \<Rightarrow> error option"
  cleanupImage :: "string \<Rightarrow> int \<Rightarrow> error + string"
  getCompletion_OCR :: "nat \<Rightarrow> CompletionArgs \<Rightarrow> error + CompletionResponse"
  onPostProcess :: "Page \<Rightarrow> Summary \<Rightarrow> error option"
  splitSchema :: "jv \<Rightarrow> string list option \<Rightarrow> jv option \<times> jv option"
  getCompletion_EXTRACTION :: "nat \<Rightarrow> extraction_input \<Rightarrow> jv \<Rightarrow> error + ExtractionResponse"
  writeFile :: "string \<Rightarrow> error option"
  fs_remove :: "error option"

text \<open>
  The mutable locals of one invocation (lines 180--184, 278--279, 393--394), with the two
  logs of the requests handed to the completion client.
\<close>

record RunState =
  inputTokenCount :: nat
  outputTokenCount :: nat
  priorPage :: string
  pages :: "Page option list"
  numSuccessfulOCRRequests :: nat
  numFailedOCRRequests :: nat
  numSuccessfulExtractionRequests :: nat
  numFailedExtractionRequests :: nat
  requests :: "CompletionArgs list"
  extractionRequests :: "(extraction_input \<times> jv) list"

definition initial_state :: RunState where
  "initial_state =
     \<lparr>inputTokenCount = 0, outputTokenCount = 0, priorPage = [], pages = [],
      numSuccessfulOCRRequests = 0, numFailedOCRRequests = 0,
      numSuccessfulExtractionRequests = 0, numFailedExtractionRequests = 0,
      requests = [], extractionRequests = []\<rparr>"

section \<open>The retry executor\<close>

text \<open>
  Modelled from the spec: \<^verbatim>\<open>runRetries\<close> is imported from \<^verbatim>\<open>./utils\<close>, which is not
  among the sources.  Section 4.1: the operation is attempted up to \<open>maxAttempts\<close> times;
  after a failure it is retried at once if attempts remain, else the last error is
  raised again; each attempt is a fresh call.  The second argument is the number of
  attempts that remain after the current one.  The page number passed as context serves
  diagnostics only and is not part of the error value.
\<close>

fun runRetries :: "('s \<Rightarrow> (error + 'a) \<times> 's) \<Rightarrow> nat \<Rightarrow> 's \<Rightarrow> (error + 'a) \<times> 's" where
  "runRetries operation 0 s = operation s"
| "runRetries operation (Suc k) s =
     (case operation s of
        (Inr r, s') \<Rightarrow> (Inr r, s')
      | (Inl e, s') \<Rightarrow> runRetries operation k s')"

section \<open>Processing one page\<close>

text \<open>
  The closure of lines 309--314: a request is built from the current \<^verbatim>\<open>priorPage\<close>
  when the operation is called, and handed to the client.
\<close>

definition ocr_args :: "string \<Rightarrow> bool \<Rightarrow> RunState \<Rightarrow> CompletionArgs" where
  "ocr_args buffer mf s = \<lparr>c_image = buffer, c_maintainFormat = mf, c_priorPage = priorPage s\<rparr>"

definition issue :: "CompletionArgs \<Rightarrow> RunState \<Rightarrow> RunState" where
  "issue args s = s\<lparr>requests := requests s @ [args]\<rparr>"

definition ocr_call ::
  "env \<Rightarrow> string \<Rightarrow> bool \<Rightarrow> RunState \<Rightarrow> (error + CompletionResponse) \<times> RunState" where
  "ocr_call E buffer mf s =
     (getCompletion_OCR E (length (requests s)) (ocr_args buffer mf s),
      issue (ocr_args buffer mf s) s)"

text \<open>
  Modelled from the spec: \<^verbatim>\<open>isCompletionResponse\<close> is imported from \<^verbatim>\<open>./utils\<close>.  Section
  4.2 (4): on success \<^verbatim>\<open>priorPage\<close> advances to the new content, so the guard holds of
  every OCR response.
\<close>

definition isCompletionResponse_OCR :: "CompletionResponse \<Rightarrow> bool" where
  "isCompletionResponse_OCR response = True"

text \<open>Lines 323--335: the counters, \<^verbatim>\<open>priorPage\<close> and the page of a successful response.\<close>

definition success_page :: "int \<Rightarrow> CompletionResponse \<Rightarrow> Page" where
  "success_page pageNumber response =
     \<lparr>content = r_content response, contentLength = r_contentLength response,
      page = Some pageNumber, status = SUCCESS, error = None,
      inputTokens = Some (r_inputTokens response),
      outputTokens = Some (r_outputTokens response)\<rparr>"

definition ocr_success :: "int \<Rightarrow> CompletionResponse \<Rightarrow> RunState \<Rightarrow> Page \<times> RunState" where
  "ocr_success pageNumber response s =
     (success_page pageNumber response,
      s\<lparr>inputTokenCount := inputTokenCount s + r_inputTokens response,
        outputTokenCount := outputTokenCount s + r_outputTokens response,
        priorPage := (if isCompletionResponse_OCR response then r_content response
                      else priorPage s),
        numSuccessfulOCRRequests := numSuccessfulOCRRequests s + 1\<rparr>)"

text \<open>Lines 336--350: the \<^verbatim>\<open>catch\<close> block.\<close>

definition error_page :: "int \<Rightarrow> error \<Rightarrow> Page" where
  "error_page pageNumber e =
     \<lparr>content = [], contentLength = 0, page = Some pageNumber, status = ERROR,
      error = Some (''Failed to process page '' @ show_int pageNumber @ '': '' @ error_text e),
      inputTokens = None, outputTokens = None\<rparr>"

definition ocr_failure :: "ErrorMode \<Rightarrow> int \<Rightarrow> error \<Rightarrow> RunState \<Rightarrow> error + Page \<times> RunState" where
  "ocr_failure mode pageNumber e s =
     (if mode = THROW then Inl e
      else Inr (error_page pageNumber e,
                s\<lparr>numFailedOCRRequests := numFailedOCRRequests s + 1\<rparr>))"

text \<open>Lines 355--362: the snapshot handed to \<^verbatim>\<open>onPostProcess\<close>.\<close>

definition progressSummary :: "nat \<Rightarrow> RunState \<Rightarrow> Summary" where
  "progressSummary numImages s =
     \<lparr>totalPages = numImages,
      ocr = Some (numSuccessfulOCRRequests s, numFailedOCRRequests s),
      extraction = None\<rparr>"

text \<open>
  \<^verbatim>\<open>processOCR\<close> (lines 289--367) run without interruption, as in the sequential loop.
  An error before the \<^verbatim>\<open>try\<close> or in the post-processing hook propagates whatever the
  error mode.
\<close>

definition ocr_outcome ::
  "ErrorMode \<Rightarrow> int \<Rightarrow> (error + CompletionResponse) \<times> RunState \<Rightarrow> error + Page \<times> RunState" where
  "ocr_outcome mode pageNumber r =
     (case r of
        (Inr response, s) \<Rightarrow> Inr (ocr_success pageNumber response s)
      | (Inl e, s) \<Rightarrow> ocr_failure mode pageNumber e s)"

definition processOCR ::
  "env \<Rightarrow> ZeroxArgs \<Rightarrow> nat \<Rightarrow> string \<Rightarrow> int \<Rightarrow> bool \<Rightarrow> RunState \<Rightarrow> (error + Page) \<times> RunState" where
  "processOCR E a numImages imagePath pageNumber mf s =
     (case cleanupImage E imagePath pageNumber of
        Inl e \<Rightarrow> (Inl e, s)
      | Inr buffer \<Rightarrow>
          (let r = runRetries (ocr_call E buffer mf) (maxRetries a - 1) s in
           case ocr_outcome (errorMode a) pageNumber r of
             Inl e \<Rightarrow> (Inl e, snd r)
           | Inr (pg, s') \<Rightarrow>
               (case onPostProcess E pg (progressSummary numImages s') of
                  Some e \<Rightarrow> (Inl e, s')
                | None \<Rightarrow> (Inr pg, s'))))"

section \<open>The page scheduler\<close>

text \<open>Format-continuity mode, lines 371--377: the loop stops behind an ERROR page.\<close>

fun ocr_sequential ::
  "env \<Rightarrow> ZeroxArgs \<Rightarrow> nat \<Rightarrow> string list \<Rightarrow> nat \<Rightarrow> RunState \<Rightarrow> error option \<times> RunState" where
  "ocr_sequential E a numImages [] i s = (None, s)"
| "ocr_sequential E a numImages (imagePath # rest) i s =
     (case processOCR E a numImages imagePath (int i + 1) True s of
        (Inl e, s') \<Rightarrow> (Some e, s')
      | (Inr pg, s') \<Rightarrow>
          (if status pg = ERROR then (None, s'\<lparr>pages := pages s' @ [Some pg]\<rparr>)
           else ocr_sequential E a numImages rest (Suc i) (s'\<lparr>pages := pages s' @ [Some pg]\<rparr>)))"

text \<open>
  Bounded-concurrency mode, lines 379--388.  The runtime is single-threaded and
  cooperative, so a task runs without interruption between two awaits.  A run is the
  sequence of these uninterrupted segments:
  \<^item> \<open>Admit i\<close>: the limiter starts task \<open>i\<close> (first in, first out, at most
    \<open>concurrency\<close> tasks started and not finished);
  \<^item> \<open>Request i\<close>: the steps before the \<^verbatim>\<open>try\<close> are over and the first request is issued;
  \<^item> \<open>Respond i\<close>: the answer to the pending request arrives: the page is built, or the
    request is issued again, or the retries are exhausted;
  \<^item> \<open>Write i\<close>: the post-processing hook is over and \<^verbatim>\<open>pages[i] = page\<close> runs.
\<close>

datatype event = Admit nat | Request nat | Respond nat | Write nat

datatype task =
    Queued
  | Admitted
  | Waiting nat string nat CompletionArgs
  | Built Page Summary
  | Finished Page

fun active :: "task \<Rightarrow> bool" where
  "active Queued = False"
| "active (Finished pg) = False"
| "active _ = True"

fun finished :: "task \<Rightarrow> bool" where
  "finished (Finished pg) = True"
| "finished _ = False"

fun queued :: "task \<Rightarrow> bool" where
  "queued Queued = True"
| "queued _ = False"

text \<open>\<^verbatim>\<open>xs[i] = v\<close> on a JavaScript array: an index past the end leaves holes.\<close>

definition js_assign :: "'a option list \<Rightarrow> nat \<Rightarrow> 'a \<Rightarrow> 'a option list" where
  "js_assign xs i v =
     (if i < length xs then xs[i := Some v]
      else xs @ replicate (i - length xs) None @ [Some v])"

type_synonym ocr_state = "task list \<times> RunState"

fun respond ::
  "env \<Rightarrow> ZeroxArgs \<Rightarrow> nat \<Rightarrow> nat \<Rightarrow> task \<Rightarrow> ocr_state \<Rightarrow> (error + ocr_state) option" where
  "respond E a numImages i (Waiting k buffer n args) (ts, s) =
     (case getCompletion_OCR E n args of
        Inr response \<Rightarrow>
          (case ocr_success (int i + 1) response s of
             (pg, s') \<Rightarrow> Some (Inr (ts[i := Built pg (progressSummary numImages s')], s')))
      | Inl e \<Rightarrow>
          (case k of
             Suc k' \<Rightarrow>
               Some (Inr (ts[i := Waiting k' buffer (length (requests s)) (ocr_args buffer False s)],
                          issue (ocr_args buffer False s) s))
           | 0 \<Rightarrow>
               (case ocr_failure (errorMode a) (int i + 1) e s of
                  Inl e' \<Rightarrow> Some (Inl e')
                | Inr (pg, s') \<Rightarrow>
                    Some (Inr (ts[i := Built pg (progressSummary numImages s')], s')))))"
| "respond E a numImages i t st = None"

fun ocr_step ::
  "env \<Rightarrow> ZeroxArgs \<Rightarrow> string list \<Rightarrow> event \<Rightarrow> ocr_state \<Rightarrow> (error + ocr_state) option" where
  "ocr_step E a imagePaths (Admit i) (ts, s) =
     (if i < length ts \<and> ts ! i = Queued \<and> \<not> list_ex queued (take i ts)
         \<and> length (filter active ts) < concurrency a
      then Some (Inr (ts[i := Admitted], s)) else None)"
| "ocr_step E a imagePaths (Request i) (ts, s) =
     (if i < length ts \<and> i < length imagePaths \<and> ts ! i = Admitted
      then (case cleanupImage E (imagePaths ! i) (int i + 1) of
              Inl e \<Rightarrow> Some (Inl e)
            | Inr buffer \<Rightarrow>
                Some (Inr (ts[i := Waiting (maxRetries a - 1) buffer (length (requests s))
                                   (ocr_args buffer False s)],
                           issue (ocr_args buffer False s) s)))
      else None)"
| "ocr_step E a imagePaths (Respond i) (ts, s) =
     (if i < length ts then respond E a (length imagePaths) i (ts ! i) (ts, s) else None)"
| "ocr_step E a imagePaths (Write i) (ts, s) =
     (if i < length ts
      then (case ts ! i of
              Built pg snapshot \<Rightarrow>
                (case onPostProcess E pg snapshot of
                   Some e \<Rightarrow> Some (Inl e)
                 | None \<Rightarrow>
                     Some (Inr (ts[i := Finished pg], s\<lparr>pages := js_assign (pages s) i pg\<rparr>)))
            | _ \<Rightarrow> None)
      else None)"

text \<open>A run of events; \<open>None\<close> when an event cannot happen in the state it meets.  The
  first error thrown by a task rejects \<^verbatim>\<open>Promise.all\<close> and ends the phase.\<close>

fun ocr_run ::
  "env \<Rightarrow> ZeroxArgs \<Rightarrow> string list \<Rightarrow> event list \<Rightarrow> ocr_state \<Rightarrow> (error + ocr_state) option" where
  "ocr_run E a imagePaths [] st = Some (Inr st)"
| "ocr_run E a imagePaths (ev # evs) st =
     (case ocr_step E a imagePaths ev st of
        None \<Rightarrow> None
      | Some (Inl e) \<Rightarrow> Some (Inl e)
      | Some (Inr st') \<Rightarrow> ocr_run E a imagePaths evs st')"

text \<open>\<^verbatim>\<open>pLimit(concurrency)\<close>, line 379, throws unless the limit is a number from 1
  up.\<close>

definition invalid_concurrency :: error where
  "invalid_concurrency =
     TypeError (''Expected '' @ [CHR 0x60] @ ''concurrency'' @ [CHR 0x60]
                  @ '' to be a number from 1 and up'')"

text \<open>\<^verbatim>\<open>await Promise.all(...)\<close>: the phase is over when every task has finished; a
  sequence of events that leaves a task unfinished is not a complete run.\<close>

definition ocr_concurrent ::
  "env \<Rightarrow> ZeroxArgs \<Rightarrow> string list \<Rightarrow> event list \<Rightarrow> RunState \<Rightarrow> (error + RunState) option" where
  "ocr_concurrent E a imagePaths evs s =
     (if concurrency a = 0 then Some (Inl invalid_concurrency)
      else
        (case ocr_run E a imagePaths evs (replicate (length imagePaths) Queued, s) of
           None \<Rightarrow> None
         | Some (Inl e) \<Rightarrow> Some (Inl e)
         | Some (Inr (ts, s')) \<Rightarrow> (if list_all finished ts then Some (Inr s') else None)))"

text \<open>
  The page built from an answer of the provider, and what it means that a page was
  produced for the \<open>i\<close>-th image: it is the page built from the answer to a logged request
  (without \<^verbatim>\<open>maintainFormat\<close>) that carried the corrected buffer of that image.
\<close>

definition page_of_outcome :: "ErrorMode \<Rightarrow> int \<Rightarrow> error + CompletionResponse \<Rightarrow> Page option" where
  "page_of_outcome mode pageNumber r =
     (case r of
        Inr response \<Rightarrow> Some (success_page pageNumber response)
      | Inl e \<Rightarrow> (if mode = THROW then None else Some (error_page pageNumber e)))"

definition answers :: "env \<Rightarrow> ZeroxArgs \<Rightarrow> RunState \<Rightarrow> string \<Rightarrow> nat \<Rightarrow> Page \<Rightarrow> nat \<Rightarrow> bool" where
  "answers E a s buffer i pg n =
     (c_image (requests s ! n) = buffer \<and> \<not> c_maintainFormat (requests s ! n)
      \<and> page_of_outcome (errorMode a) (int i + 1) (getCompletion_OCR E n (requests s ! n))
          = Some pg)"

definition produced_for :: "env \<Rightarrow> ZeroxArgs \<Rightarrow> string list \<Rightarrow> RunState \<Rightarrow> nat \<Rightarrow> Page \<Rightarrow> bool" where
  "produced_for E a imagePaths s i pg =
     (case cleanupImage E (imagePaths ! i) (int i + 1) of
        Inl e \<Rightarrow> False
      | Inr buffer \<Rightarrow> list_ex (answers E a s buffer i pg) [0..<length (requests s)])"

text \<open>The invariant of a concurrent run, task by task.\<close>

fun task_ok :: "env \<Rightarrow> ZeroxArgs \<Rightarrow> string list \<Rightarrow> RunState \<Rightarrow> nat \<Rightarrow> task \<Rightarrow> bool" where
  "task_ok E a imagePaths s i (Waiting k buffer n args) =
     (cleanupImage E (imagePaths ! i) (int i + 1) = Inr buffer \<and> n < length (requests s)
      \<and> requests s ! n = args \<and> c_image args = buffer \<and> \<not> c_maintainFormat args)"
| "task_ok E a imagePaths s i (Built pg snapshot) = produced_for E a imagePaths s i pg"
| "task_ok E a imagePaths s i (Finished pg) =
     (produced_for E a imagePaths s i pg \<and> i < length (pages s) \<and> pages s ! i = Some pg)"
| "task_ok E a imagePaths s i t = True"

definition tasks_ok :: "env \<Rightarrow> ZeroxArgs \<Rightarrow> string list \<Rightarrow> ocr_state \<Rightarrow> bool" where
  "tasks_ok E a imagePaths st =
     (case st of (ts, s) \<Rightarrow>
        length ts = length imagePaths \<and> length (pages s) \<le> length imagePaths
        \<and> list_all (\<lambda>i. task_ok E a imagePaths s i (ts ! i)) [0..<length ts])"

text \<open>The queue of the limiter is first in, first out: the tasks that wait for their
  admission are those from some index on.\<close>

definition waiting_from :: "task list \<Rightarrow> nat \<Rightarrow> bool" where
  "waiting_from ts q = (q \<le> length ts \<and> list_all (\<lambda>j. queued (ts ! j) \<longleftrightarrow> q \<le> j) [0..<length ts])"

text \<open>Lines 288--390.\<close>

definition ocr_phase ::
  "env \<Rightarrow> event list \<Rightarrow> ZeroxArgs \<Rightarrow> string list \<Rightarrow> RunState \<Rightarrow> (error + RunState) option" where
  "ocr_phase E evs a imagePaths s =
     (if extractOnly a then Some (Inr s)
      else if maintainFormat a then
        (case ocr_sequential E a (length imagePaths) imagePaths 0 s of
           (Some e, s') \<Rightarrow> Some (Inl e)
         | (None, s') \<Rightarrow> Some (Inr s'))
      else ocr_concurrent E a imagePaths evs s)"

text \<open>
  The system prompt of the Bedrock client (\<^verbatim>\<open>getCompletion\<close>, lines 875--888): the prior
  page enters the prompt only under \<^verbatim>\<open>maintainFormat\<close>.
\<close>

definition basePrompt :: string where
  "basePrompt = ''Convert the following PDF page to markdown.''"

definition systemPrompt :: "CompletionArgs \<Rightarrow> string" where
  "systemPrompt args =
     (if c_maintainFormat args \<and> c_priorPage args \<noteq> []
      then basePrompt
        @ ''Markdown must maintain consistent formatting with the following page: ''
        @ c_priorPage args
      else basePrompt)"

text \<open>
  What holds of the \<open>n\<close>-th logged request of a concurrent run: it is issued without
  \<^verbatim>\<open>maintainFormat\<close>, so the prompt is the base prompt, and the prior page it carries
  is empty or the content answered to an earlier request of the run.
\<close>

definition earlier_content :: "env \<Rightarrow> CompletionArgs list \<Rightarrow> nat \<Rightarrow> string \<Rightarrow> bool" where
  "earlier_content E rs n prior =
     list_ex (\<lambda>m. case getCompletion_OCR E m (rs ! m) of
                     Inr response \<Rightarrow> prior = r_content response
                   | Inl e \<Rightarrow> False) [0..<n]"

definition concurrent_request_ok :: "env \<Rightarrow> CompletionArgs list \<Rightarrow> nat \<Rightarrow> bool" where
  "concurrent_request_ok E rs n =
     (\<not> c_maintainFormat (rs ! n) \<and> systemPrompt (rs ! n) = basePrompt
      \<and> (c_priorPage (rs ! n) = [] \<or> earlier_content E rs n (c_priorPage (rs ! n))))"

definition log_ok :: "env \<Rightarrow> RunState \<Rightarrow> bool" where
  "log_ok E s =
     ((priorPage s = [] \<or> earlier_content E (requests s) (length (requests s)) (priorPage s))
      \<and> list_all (concurrent_request_ok E (requests s)) [0..<length (requests s)])"

section \<open>Extraction\<close>

text \<open>\<^verbatim>\<open>Object.keys(schema?.properties ?? {})\<close>.\<close>

definition schema_keys :: "jv \<Rightarrow> string list" where
  "schema_keys sch =
     (case sch of
        JObj kvs \<Rightarrow>
          (case obj_get kvs ''properties'' of
             Some (JObj props) \<Rightarrow> map fst props
           | Some (JArr xs) \<Rightarrow> map show_nat [0..<length xs]
           | Some (JStr str) \<Rightarrow> map show_nat [0..<length str]
           | Some (JFunEntry p f) \<Rightarrow> [''page'', ''value'']
           | _ \<Rightarrow> [])
      | _ \<Rightarrow> [])"

definition entry :: "int \<Rightarrow> jv \<Rightarrow> jv" where
  "entry p v = JObj [(''page'', JNum p), (''value'', v)]"

fun arr_of :: "jv option \<Rightarrow> jv list" where
  "arr_of (Some (JArr xs)) = xs"
| "arr_of _ = []"

text \<open>
  Lines 433--436: \<^verbatim>\<open>if (!Array.isArray(result[key])) result[key] = []\<close> and the push.
  Under \<^verbatim>\<open>__proto__\<close> the read yields the prototype of \<^verbatim>\<open>result\<close>, which is no array;
  the write makes the fresh array the prototype, and the entry is pushed there: no
  property of \<^verbatim>\<open>result\<close> itself comes of it, and the reads that follow still find no array
  but in the own properties.  Under every other name the write is that of an own
  property.
\<close>

definition push_entry :: "jobject \<Rightarrow> string \<Rightarrow> jv \<Rightarrow> jobject" where
  "push_entry result key e =
     (if key = ''__proto__'' then result
      else obj_set result key (JArr (arr_of (obj_get result key) @ [e])))"

text \<open>Lines 430--438.  Reading a key of a missing \<^verbatim>\<open>extracted\<close> is a \<^verbatim>\<open>TypeError\<close>;
  a key that the response lacks can still be read, when \<^verbatim>\<open>Object.prototype\<close> has it.\<close>

fun collect_fields :: "int \<Rightarrow> jobject option \<Rightarrow> string list \<Rightarrow> jobject \<Rightarrow> error + jobject" where
  "collect_fields pageNumber ex [] result = Inr result"
| "collect_fields pageNumber None (key # keys) result =
     Inl (TypeError ''Cannot read properties of undefined'')"
| "collect_fields pageNumber (Some ex) (key # keys) result =
     (case js_get ex key of
        Undefined \<Rightarrow> collect_fields pageNumber (Some ex) keys result
      | Value JNull \<Rightarrow> collect_fields pageNumber (Some ex) keys result
      | Value v \<Rightarrow>
          collect_fields pageNumber (Some ex) keys (push_entry result key (entry pageNumber v))
      | Function f \<Rightarrow>
          collect_fields pageNumber (Some ex) keys
            (push_entry result key (JFunEntry pageNumber f)))"

text \<open>Lines 411--439: one attempt of the per-page operation; \<^verbatim>\<open>result\<close> is shared by
  the attempts of one task.\<close>

definition extraction_attempt ::
  "env \<Rightarrow> extraction_input \<Rightarrow> int \<Rightarrow> jv \<Rightarrow> RunState \<times> jobject
     \<Rightarrow> (error + unit) \<times> RunState \<times> jobject" where
  "extraction_attempt E input pageNumber sch st =
     (case st of (s, result) \<Rightarrow>
        (let s0 = s\<lparr>extractionRequests := extractionRequests s @ [(input, sch)]\<rparr> in
         case getCompletion_EXTRACTION E (length (extractionRequests s)) input sch of
           Inl e \<Rightarrow> (Inl e, s0, result)
         | Inr response \<Rightarrow>
             (let s1 = s0\<lparr>inputTokenCount := inputTokenCount s0 + x_inputTokens response,
                          outputTokenCount := outputTokenCount s0 + x_outputTokens response,
                          numSuccessfulExtractionRequests :=
                            numSuccessfulExtractionRequests s0 + 1\<rparr> in
              case collect_fields pageNumber (x_extracted response) (schema_keys sch) result of
                Inl e \<Rightarrow> (Inl e, s1, result)
              | Inr result' \<Rightarrow> (Inr (), s1, result'))))"

text \<open>\<^verbatim>\<open>processExtraction\<close>, lines 403--449; the error mode is not consulted.\<close>

definition processExtraction ::
  "env \<Rightarrow> ZeroxArgs \<Rightarrow> extraction_input \<Rightarrow> int \<Rightarrow> jv \<Rightarrow> RunState
     \<Rightarrow> (error + jobject) \<times> RunState" where
  "processExtraction E a input pageNumber sch s =
     (case runRetries (extraction_attempt E input pageNumber sch) (maxRetries a - 1) (s, []) of
        (Inl e, s', result) \<Rightarrow>
          (Inl e, s'\<lparr>numFailedExtractionRequests := numFailedExtractionRequests s' + 1\<rparr>)
      | (Inr u, s', result) \<Rightarrow> (Inr result, s'))"

text \<open>The full-document task, lines 473--496: a single request, outside \<^verbatim>\<open>runRetries\<close>.\<close>

definition fullDocExtraction ::
  "env \<Rightarrow> extraction_input \<Rightarrow> jv \<Rightarrow> RunState \<Rightarrow> (error + jobject option) \<times> RunState" where
  "fullDocExtraction E input sch s =
     (let s0 = s\<lparr>extractionRequests := extractionRequests s @ [(input, sch)]\<rparr> in
      case getCompletion_EXTRACTION E (length (extractionRequests s)) input sch of
        Inl e \<Rightarrow> (Inl e, s0\<lparr>numFailedExtractionRequests := numFailedExtractionRequests s0 + 1\<rparr>)
      | Inr response \<Rightarrow>
          (Inr (x_extracted response),
           s0\<lparr>inputTokenCount := inputTokenCount s0 + x_inputTokens response,
              outputTokenCount := outputTokenCount s0 + x_outputTokens response,
              numSuccessfulExtractionRequests := numSuccessfulExtractionRequests s0 + 1\<rparr>))"

text \<open>Lines 452--454 and 464--470.  A hole of \<^verbatim>\<open>pages\<close> stays a hole under \<^verbatim>\<open>map\<close> and
  joins as the empty string.\<close>

definition perPage_inputs ::
  "ZeroxArgs \<Rightarrow> string list \<Rightarrow> Page option list \<Rightarrow> extraction_input option list" where
  "perPage_inputs a imagePaths ps =
     (if extractOnly a then map (\<lambda>imagePath. Some (ImagesInput [imagePath])) imagePaths
      else map (map_option (\<lambda>pg. TextInput (content pg))) ps)"

fun joined_pages :: "nat \<Rightarrow> Page option list \<Rightarrow> string" where
  "joined_pages i [] = []"
| "joined_pages i (None # ps) = joined_pages (Suc i) ps"
| "joined_pages i (Some pg # ps) =
     (if i = 0 then content pg else [CHR 0x0A] @ ''<hr><hr>'' @ [CHR 0x0A] @ content pg)
       @ joined_pages (Suc i) ps"

definition fullDoc_input :: "ZeroxArgs \<Rightarrow> string list \<Rightarrow> Page option list \<Rightarrow> extraction_input" where
  "fullDoc_input a imagePaths ps =
     (if extractOnly a then ImagesInput imagePaths else TextInput (joined_pages 0 ps))"

text \<open>
  The per-page tasks, lines 456--460.  The tasks interleave at their awaits, but they
  share only the counters, which they increment, and the request log; the model runs
  them one after the other.  No task is cancelled when another fails.
\<close>

fun perPage_tasks ::
  "env \<Rightarrow> ZeroxArgs \<Rightarrow> jv \<Rightarrow> nat \<Rightarrow> extraction_input option list \<Rightarrow> RunState
     \<Rightarrow> (error + jobject option) list \<times> RunState" where
  "perPage_tasks E a sch i [] s = ([], s)"
| "perPage_tasks E a sch i (None # inputs) s =
     (case perPage_tasks E a sch (Suc i) inputs s of (rs, s') \<Rightarrow> (Inr None # rs, s'))"
| "perPage_tasks E a sch i (Some input # inputs) s =
     (case processExtraction E a input (int i + 1) sch s of
        (r, s1) \<Rightarrow>
          (case perPage_tasks E a sch (Suc i) inputs s1 of
             (rs, s2) \<Rightarrow> (map_sum id Some r # rs, s2)))"

text \<open>
  \<^verbatim>\<open>Promise.all\<close>: the values in task order when every task succeeds, else the error of
  the task that fails first; \<open>order\<close> lists the tasks in the order of their completion.
\<close>

fun first_rejection :: "nat list \<Rightarrow> (error + 'a) list \<Rightarrow> error option" where
  "first_rejection [] rs = None"
| "first_rejection (i # order) rs =
     (if i < length rs
      then (case rs ! i of Inl e \<Rightarrow> Some e | Inr v \<Rightarrow> first_rejection order rs)
      else first_rejection order rs)"

fun resolved :: "(error + 'a) list \<Rightarrow> 'a list option" where
  "resolved [] = Some []"
| "resolved (Inl e # rs) = None"
| "resolved (Inr v # rs) = map_option ((#) v) (resolved rs)"

definition promise_all :: "nat list \<Rightarrow> (error + 'a) list \<Rightarrow> (error + 'a list) option" where
  "promise_all order rs =
     (case resolved rs of
        Some vs \<Rightarrow> Some (Inr vs)
      | None \<Rightarrow> map_option Inl (first_rejection order rs))"

section \<open>The extraction aggregator\<close>

text \<open>
  Lines 501--513 of \<^verbatim>\<open>zerox\<close>:
  \<^verbatim>\<open>
  results.reduce((acc, result) => {
    Object.entries(result || {}).forEach(([key, value]) => {
      if (!acc[key]) { acc[key] = []; }
      if (Array.isArray(value)) { acc[key].push(...value); }
      else { acc[key] = value; }
    });
    return acc;
  }, {});
  \<close>
  \<open>merge_entry\<close> is the body of the inner callback.  The accumulator is a plain object,
  so \<^verbatim>\<open>acc[key]\<close> finds what \<^verbatim>\<open>acc\<close> inherits where it has no property of its own, and
  \<^verbatim>\<open>acc.__proto__ = value\<close> replaces its prototype: the accumulator is the list of its own
  properties together with its prototype.
\<close>

datatype prototype =
    ObjectPrototype
  | NullPrototype
  | ObjectValue jobject
  | EntryValue int string

record js_object =
  props :: jobject
  proto :: prototype

definition empty_object :: js_object where
  "empty_object = \<lparr>props = [], proto = ObjectPrototype\<rparr>"

text \<open>\<^verbatim>\<open>acc[key]\<close>: the own property, else along the prototype chain.  An object that
  became the prototype is a value of some result: its own prototype is
  \<^verbatim>\<open>Object.prototype\<close>.\<close>

definition acc_get :: "js_object \<Rightarrow> string \<Rightarrow> looked" where
  "acc_get acc key =
     (case obj_get (props acc) key of
        Some v \<Rightarrow> Value v
      | None \<Rightarrow>
          (case proto acc of
             NullPrototype \<Rightarrow> Undefined
           | ObjectPrototype \<Rightarrow> inherited (JObj []) key
           | ObjectValue obj \<Rightarrow>
               (case obj_get obj key of
                  Some v \<Rightarrow> Value v
                | None \<Rightarrow> inherited (JObj obj) key)
           | EntryValue p f \<Rightarrow>
               (if key = ''page'' then Value (JNum p)
                else if key = ''value'' then Function f
                else inherited (JFunEntry p f) key)))"

text \<open>Whether a write of \<^verbatim>\<open>acc.__proto__\<close> comes to the accessor of
  \<^verbatim>\<open>Object.prototype\<close>: no object before it on the chain has the name as its own.\<close>

definition reaches_accessor :: "js_object \<Rightarrow> bool" where
  "reaches_accessor acc =
     (obj_get (props acc) ''__proto__'' = None
      \<and> (case proto acc of
            ObjectPrototype \<Rightarrow> True
          | NullPrototype \<Rightarrow> False
          | ObjectValue obj \<Rightarrow> obj_get obj ''__proto__'' = None
          | EntryValue p f \<Rightarrow> True))"

text \<open>\<^verbatim>\<open>acc[key] = []\<close> of line 504 runs when \<^verbatim>\<open>acc[key]\<close> is falsy.  The accessor
  yields an object, which is truthy, so this write never comes to it: it writes an own
  property, as every write does that finds a data property, or nothing, on the chain.\<close>

definition acc_init :: "js_object \<Rightarrow> string \<Rightarrow> js_object" where
  "acc_init acc key =
     (if falsy (acc_get acc key) then acc\<lparr>props := obj_set (props acc) key (JArr [])\<rparr> else acc)"

text \<open>\<^verbatim>\<open>acc[key].push(...value)\<close>, line 507: on an own array, on an array of the object
  that is the prototype (which the push changes in place), or else a \<^verbatim>\<open>TypeError\<close>: no
  other value that \<^verbatim>\<open>acc[key]\<close> can yield has a method \<^verbatim>\<open>push\<close>.\<close>

definition not_a_function :: error where
  "not_a_function = TypeError ''acc[key].push is not a function''"

definition acc_push :: "js_object \<Rightarrow> string \<Rightarrow> jv list \<Rightarrow> error + js_object" where
  "acc_push acc key vs =
     (case obj_get (props acc) key of
        Some (JArr xs) \<Rightarrow> Inr (acc\<lparr>props := obj_set (props acc) key (JArr (xs @ vs))\<rparr>)
      | Some v \<Rightarrow> Inl not_a_function
      | None \<Rightarrow>
          (case proto acc of
             ObjectValue obj \<Rightarrow>
               (case obj_get obj key of
                  Some (JArr xs) \<Rightarrow> Inr (acc\<lparr>proto := ObjectValue (obj_set obj key (JArr (xs @ vs)))\<rparr>)
                | _ \<Rightarrow> Inl not_a_function)
           | _ \<Rightarrow> Inl not_a_function))"

text \<open>\<^verbatim>\<open>acc[key] = value\<close>, line 509, for a value that is not an array.\<close>

definition set_prototype :: "js_object \<Rightarrow> prototype \<Rightarrow> js_object" where
  "set_prototype acc p = acc\<lparr>proto := p\<rparr>"

definition acc_put :: "js_object \<Rightarrow> string \<Rightarrow> jv \<Rightarrow> js_object" where
  "acc_put acc key val = acc\<lparr>props := obj_set (props acc) key val\<rparr>"

fun merge_entry :: "js_object \<Rightarrow> string \<times> jv \<Rightarrow> error + js_object" where
  "merge_entry acc (key, val) =
     (let acc1 = acc_init acc key;
          accessor = (key = ''__proto__'' \<and> reaches_accessor acc1) in
      case val of
        JArr vs \<Rightarrow> acc_push acc1 key vs
      | JNull \<Rightarrow>
          Inr (if accessor then set_prototype acc1 NullPrototype else acc_put acc1 key val)
      | JObj obj \<Rightarrow>
          Inr (if accessor then set_prototype acc1 (ObjectValue obj) else acc_put acc1 key val)
      | JFunEntry p f \<Rightarrow>
          Inr (if accessor then set_prototype acc1 (EntryValue p f) else acc_put acc1 key val)
      | JBool b \<Rightarrow> Inr (if accessor then acc1 else acc_put acc1 key val)
      | JNum n \<Rightarrow> Inr (if accessor then acc1 else acc_put acc1 key val)
      | JStr str \<Rightarrow> Inr (if accessor then acc1 else acc_put acc1 key val))"

fun merge_entries :: "js_object \<Rightarrow> (string \<times> jv) list \<Rightarrow> error + js_object" where
  "merge_entries acc [] = Inr acc"
| "merge_entries acc (e # es) =
     (case merge_entry acc e of Inl err \<Rightarrow> Inl err | Inr acc' \<Rightarrow> merge_entries acc' es)"

text \<open>\<^verbatim>\<open>Object.entries(result || {})\<close>: a missing result has no entries.\<close>

fun entries_of :: "jobject option \<Rightarrow> (string \<times> jv) list" where
  "entries_of None = []"
| "entries_of (Some kvs) = kvs"

fun merge_results :: "js_object \<Rightarrow> jobject option list \<Rightarrow> error + js_object" where
  "merge_results acc [] = Inr acc"
| "merge_results acc (r # rs) =
     (case merge_entries acc (entries_of r) of
        Inl err \<Rightarrow> Inl err
      | Inr acc' \<Rightarrow> merge_results acc' rs)"

text \<open>The reduction from \<^verbatim>\<open>{}\<close>; the value of \<^verbatim>\<open>extracted\<close> is given by its own
  properties.\<close>

definition merge :: "jobject option list \<Rightarrow> error + jobject" where
  "merge results = map_sum id props (merge_results empty_object results)"







section \<open>The extraction phase\<close>

text \<open>Lines 396--514: split the schema, start every task, await them all, merge.\<close>

definition extraction_tasks ::
  "env \<Rightarrow> ZeroxArgs \<Rightarrow> jv \<Rightarrow> string list \<Rightarrow> RunState
     \<Rightarrow> (error + jobject option) list \<times> RunState" where
  "extraction_tasks E a sch imagePaths s =
     (case splitSchema E sch (extractPerPage a) of
        (fullDocSchema, perPageSchema) \<Rightarrow>
          (case (case perPageSchema of
                   None \<Rightarrow> ([], s)
                 | Some pps \<Rightarrow> perPage_tasks E a pps 0 (perPage_inputs a imagePaths (pages s)) s) of
             (rs1, s1) \<Rightarrow>
               (case fullDocSchema of
                  None \<Rightarrow> (rs1, s1)
                | Some fds \<Rightarrow>
                    (case fullDocExtraction E (fullDoc_input a imagePaths (pages s)) fds s1 of
                       (r, s2) \<Rightarrow> (rs1 @ [r], s2)))))"

definition extraction_phase ::
  "env \<Rightarrow> nat list \<Rightarrow> ZeroxArgs \<Rightarrow> string list \<Rightarrow> RunState
     \<Rightarrow> ((error + jobject option) \<times> RunState) option" where
  "extraction_phase E order a imagePaths s =
     (case schema a of
        None \<Rightarrow> Some (Inr None, s)
      | Some sch \<Rightarrow>
          (case extraction_tasks E a sch imagePaths s of
             (rs, s') \<Rightarrow>
               (case promise_all order rs of
                  None \<Rightarrow> None
                | Some (Inl e) \<Rightarrow> Some (Inl e, s')
                | Some (Inr results) \<Rightarrow>
                    (case merge results of
                       Inl e \<Rightarrow> Some (Inl e, s')
                     | Inr acc \<Rightarrow> Some (Inr (Some acc), s')))))"

section \<open>The invocation\<close>

text \<open>Lines 187--190: a non-empty \<^verbatim>\<open>openaiAPIKey\<close> replaces provider and credentials
  (the locals, not the caller's object).\<close>

definition override_credentials :: "ZeroxArgs \<Rightarrow> ZeroxArgs" where
  "override_credentials a =
     (if openaiAPIKey a \<noteq> []
      then a\<lparr>modelProvider := OPENAI, credentials := OpenAICredentials (openaiAPIKey a)\<rparr>
      else a)"

text \<open>\<^verbatim>\<open>Object.values(credentials)\<close>; an optional field that is absent is \<open>None\<close>.\<close>

fun credential_values :: "ModelCredentials \<Rightarrow> string option list" where
  "credential_values (OpenAICredentials k) = [Some k]"
| "credential_values (BedrockCredentials ak r sk st) = [ak, Some r, sk, st]"

fun falsy_string :: "string option \<Rightarrow> bool" where
  "falsy_string None = True"
| "falsy_string (Some str) = (str = [])"

text \<open>The validators, lines 193--204, in their order: the credentials check of lines
  193--195, then the checks of the file path and of the mode.\<close>

definition input_validators :: "ZeroxArgs \<Rightarrow> error option" where
  "input_validators a =
     (if filePath a = [] then Some MissingFilePath
      else if extractOnly a \<and> schema a = None then Some SchemaRequired
      else if extractOnly a \<and> maintainFormat a then Some MaintainFormatOCROnly
      else None)"

definition validators :: "ZeroxArgs \<Rightarrow> error option" where
  "validators a =
     (if list_all falsy_string (credential_values (credentials a)) then Some MissingCredentials
      else input_validators a)"

text \<open>Lines 240--242: \<^verbatim>\<open>sort((a, b) => a - b)\<close>, in place, on an array selector.\<close>

fun sort_selector :: "selector \<Rightarrow> selector" where
  "sort_selector (Multiple xs) = Multiple (sort xs)"
| "sort_selector (Single n) = Single n"

text \<open>Lines 538--560.  An index past the end of an array selector reads \<^verbatim>\<open>undefined\<close>.\<close>

definition correctPageNumber :: "selector \<Rightarrow> nat \<Rightarrow> int option" where
  "correctPageNumber sel i =
     (case sel of
        Single n \<Rightarrow> (if n = - 1 then Some (int i + 1) else Some n)
      | Multiple xs \<Rightarrow> (if i < length xs then Some (xs ! i) else None))"

fun formatPages :: "selector \<Rightarrow> nat \<Rightarrow> Page option list \<Rightarrow> Page option list" where
  "formatPages sel i [] = []"
| "formatPages sel i (p # ps) =
     map_option (\<lambda>pg. pg\<lparr>page := correctPageNumber sel i\<rparr>) p # formatPages sel (Suc i) ps"

definition formattedPages :: "selector \<Rightarrow> Page option list \<Rightarrow> Page option list" where
  "formattedPages sel ps = formatPages sel 0 ps"

text \<open>The returned value (lines 562--584) without the elapsed time and the file name.\<close>

record ZeroxOutput =
  o_extracted :: "jobject option"
  o_inputTokens :: nat
  o_outputTokens :: nat
  o_pages :: "Page option list"
  o_summary :: Summary

text \<open>
  What an invocation leaves behind: whether the temporary directory exists, how often
  its removal and the termination of the worker pool were attempted, whether the pool is
  live, what was written to the output file, and the caller's selector, whose array the
  invocation shares with the caller.
\<close>

record world =
  tempDirectory :: bool
  removeCalls :: nat
  workerPool :: bool
  terminateCalls :: nat
  outputFile :: "string option"
  callerPages :: selector

definition initial_world :: "ZeroxArgs \<Rightarrow> world" where
  "initial_world a =
     \<lparr>tempDirectory = False, removeCalls = 0, workerPool = False, terminateCalls = 0,
      outputFile = None, callerPages = pagesToConvertAsImages a\<rparr>"

text \<open>\<^verbatim>\<open>pages.map((page) => page.content).join("\n\n")\<close>.\<close>

fun joined_content :: "Page option list \<Rightarrow> string" where
  "joined_content [] = []"
| "joined_content [p] = (case p of None \<Rightarrow> [] | Some pg \<Rightarrow> content pg)"
| "joined_content (p # ps) =
     (case p of None \<Rightarrow> [] | Some pg \<Rightarrow> content pg) @ [CHR 0x0A, CHR 0x0A] @ joined_content ps"

definition summary_of :: "ZeroxArgs \<Rightarrow> nat \<Rightarrow> RunState \<Rightarrow> Summary" where
  "summary_of a numImages s =
     \<lparr>totalPages = numImages,
      ocr = (if \<not> extractOnly a
             then Some (numSuccessfulOCRRequests s, numFailedOCRRequests s) else None),
      extraction = (if schema a \<noteq> None
                    then Some (numSuccessfulExtractionRequests s, numFailedExtractionRequests s)
                    else None)\<rparr>"

text \<open>Lines 516--584: write the output file (when \<^verbatim>\<open>outputDir\<close> is a non-empty string),
  remove the temporary directory, build the returned value.\<close>

definition zerox_finish ::
  "env \<Rightarrow> ZeroxArgs \<Rightarrow> selector \<Rightarrow> nat \<Rightarrow> RunState \<Rightarrow> jobject option \<Rightarrow> world
     \<Rightarrow> (error + ZeroxOutput) \<times> world" where
  "zerox_finish E a sel numImages s extracted w =
     (case (if outputDir a = None \<or> outputDir a = Some []
            then Inr w
            else (case writeFile E (joined_content (pages s)) of
                    Some e \<Rightarrow> Inl e
                  | None \<Rightarrow> Inr (w\<lparr>outputFile := Some (joined_content (pages s))\<rparr>))) of
        Inl e \<Rightarrow> (Inl e, w)
      | Inr w1 \<Rightarrow>
          (case (if cleanup a
                 then (case fs_remove E of
                         Some e \<Rightarrow> Inl (e, w1\<lparr>removeCalls := removeCalls w1 + 1\<rparr>)
                       | None \<Rightarrow>
                           Inr (w1\<lparr>removeCalls := removeCalls w1 + 1, tempDirectory := False\<rparr>))
                 else Inr w1) of
             Inl (e, w2) \<Rightarrow> (Inl e, w2)
           | Inr w2 \<Rightarrow>
               (Inr \<lparr>o_extracted = extracted, o_inputTokens = inputTokenCount s,
                     o_outputTokens = outputTokenCount s,
                     o_pages = formattedPages sel (pages s),
                     o_summary = summary_of a numImages s\<rparr>, w2)))"

text \<open>The two schedules of a run: the segments of the concurrent OCR phase, and the
  order in which the extraction tasks complete.\<close>

record schedule =
  ocr_events :: "event list"
  extraction_order :: "nat list"

text \<open>Lines 269--514 followed by the rest: the work on the images.\<close>

definition zerox_process ::
  "env \<Rightarrow> schedule \<Rightarrow> ZeroxArgs \<Rightarrow> selector \<Rightarrow> string list \<Rightarrow> world
     \<Rightarrow> ((error + ZeroxOutput) \<times> world) option" where
  "zerox_process E sched a sel imagePaths w =
     (case (if correctOrientation a then prepareWorkersForImageProcessing E else None) of
        Some e \<Rightarrow> Some (Inl e, w)
      | None \<Rightarrow>
          (case createModel E (modelProvider a) (credentials a) of
             Some e \<Rightarrow> Some (Inl e, w)
           | None \<Rightarrow>
               (case ocr_phase E (ocr_events sched) a imagePaths initial_state of
                  None \<Rightarrow> None
                | Some (Inl e) \<Rightarrow> Some (Inl e, w)
                | Some (Inr s) \<Rightarrow>
                    (case extraction_phase E (extraction_order sched) a imagePaths s of
                       None \<Rightarrow> None
                     | Some (Inl e, s') \<Rightarrow> Some (Inl e, w)
                     | Some (Inr extracted, s') \<Rightarrow>
                         Some (zerox_finish E a sel (length imagePaths) s' extracted w)))))"

text \<open>Lines 244--267: the image of a PNG file, or the images of the (converted) PDF.\<close>

definition imagePaths_of :: "env \<Rightarrow> selector \<Rightarrow> string \<Rightarrow> string \<Rightarrow> error + string list" where
  "imagePaths_of E sel extension localPath =
     (if extension = ''.png'' then Inr [localPath]
      else (case (if extension = ''.pdf'' then Inr localPath else convertFileToPdf E) of
              Inl e \<Rightarrow> Inl e
            | Inr pdfPath \<Rightarrow> convertPdfToImages E sel))"

text \<open>The body of the \<^verbatim>\<open>try\<close> block, lines 221--584.\<close>

definition zerox_body ::
  "env \<Rightarrow> schedule \<Rightarrow> ZeroxArgs \<Rightarrow> world \<Rightarrow> ((error + ZeroxOutput) \<times> world) option" where
  "zerox_body E sched a w =
     (case ensureDir E of
        Some e \<Rightarrow> Some (Inl e, w)
      | None \<Rightarrow>
          (let w1 = w\<lparr>tempDirectory := True\<rparr> in
           case downloadFile E of
             Inl e \<Rightarrow> Some (Inl e, w1)
           | Inr (extension, localPath) \<Rightarrow>
               (if localPath = [] then Some (Inl FailedToSave, w1)
                else
                  (let sel = sort_selector (pagesToConvertAsImages a);
                       w2 = w1\<lparr>callerPages := sel\<rparr> in
                   case imagePaths_of E sel extension localPath of
                     Inl e \<Rightarrow> Some (Inl e, w2)
                   | Inr imagePaths \<Rightarrow> zerox_process E sched a sel imagePaths w2))))"

text \<open>The \<^verbatim>\<open>finally\<close> block, lines 585--589; the scheduler is non-null exactly when
  orientation correction is on.\<close>

definition finally_block :: "ZeroxArgs \<Rightarrow> world \<Rightarrow> world" where
  "finally_block a w =
     (if correctOrientation a \<and> workerPool w
      then w\<lparr>workerPool := False, terminateCalls := terminateCalls w + 1\<rparr>
      else w)"

text \<open>Lines 206--590: the set-up of the scheduler, the \<^verbatim>\<open>try\<close> block and the
  \<^verbatim>\<open>finally\<close> block.\<close>

definition zerox_run ::
  "env \<Rightarrow> schedule \<Rightarrow> ZeroxArgs \<Rightarrow> world \<Rightarrow> ((error + ZeroxOutput) \<times> world) option" where
  "zerox_run E sched a w =
     (case (if correctOrientation a then getTesseractScheduler E else None) of
        Some e \<Rightarrow> Some (Inl e, w)
      | None \<Rightarrow>
          map_option (\<lambda>(r, w'). (r, finally_block a w'))
            (zerox_body E sched a (w\<lparr>workerPool := correctOrientation a\<rparr>)))"

text \<open>Lines 192--590, on the locals of the destructuring: the validators, then the
  rest.\<close>

definition zerox_locals ::
  "env \<Rightarrow> schedule \<Rightarrow> ZeroxArgs \<Rightarrow> world \<Rightarrow> ((error + ZeroxOutput) \<times> world) option" where
  "zerox_locals E sched a w =
     (case validators a of
        Some e \<Rightarrow> Some (Inl e, w)
      | None \<Rightarrow> zerox_run E sched a w)"

text \<open>
  \<^verbatim>\<open>zerox\<close>, lines 154--590.  The result is the returned value or the error thrown,
  the world left behind, and the caller's argument object after the call: the locals of
  the destructuring are copies, only the selector array is shared.  \<open>None\<close>: the
  schedules given are not those of a complete run.
\<close>

definition zerox ::
  "env \<Rightarrow> schedule \<Rightarrow> ZeroxArgs \<Rightarrow> ((error + ZeroxOutput) \<times> world \<times> ZeroxArgs) option" where
  "zerox E sched args =
     map_option (\<lambda>(r, w'). (r, w', args\<lparr>pagesToConvertAsImages := callerPages w'\<rparr>))
       (zerox_locals E sched (override_credentials args) (initial_world args))"

text \<open>
  The invocation comes to the sort of lines 240--242 when the validators pass, the
  scheduler and the temporary directory are set up and the download yields a local path.
\<close>

definition reaches_sort :: "env \<Rightarrow> ZeroxArgs \<Rightarrow> bool" where
  "reaches_sort E args =
     (validators (override_credentials args) = None
      \<and> (if correctOrientation args then getTesseractScheduler E = None else True)
      \<and> ensureDir E = None
      \<and> (case downloadFile E of
            Inl e \<Rightarrow> False
          | Inr (extension, localPath) \<Rightarrow> localPath \<noteq> []))"

text \<open>The \<^verbatim>\<open>try\<close> block is entered when the validators pass and the scheduler is set up.\<close>

definition enters_try :: "env \<Rightarrow> ZeroxArgs \<Rightarrow> bool" where
  "enters_try E args =
     (validators (override_credentials args) = None
      \<and> (if correctOrientation args then getTesseractScheduler E = None else True))"

text \<open>What the body of the \<^verbatim>\<open>try\<close> block does to the world, by its result: it leaves the
  worker pool alone; it removes the temporary directory once before it returns a value,
  if \<^verbatim>\<open>cleanup\<close> is set; when it throws, no removal was attempted, unless the error is
  that of the removal itself.\<close>

definition body_effect :: "env \<Rightarrow> ZeroxArgs \<Rightarrow> world \<Rightarrow> error + ZeroxOutput \<Rightarrow> world \<Rightarrow> bool" where
  "body_effect E a w r w' =
     (workerPool w' = workerPool w \<and> terminateCalls w' = terminateCalls w
      \<and> (case r of
            Inr out \<Rightarrow>
              removeCalls w' = removeCalls w + (if cleanup a then 1 else 0)
              \<and> (if cleanup a then \<not> tempDirectory w' else True)
          | Inl e \<Rightarrow>
              removeCalls w' = removeCalls w
              \<or> (removeCalls w' = removeCalls w + 1 \<and> fs_remove E = Some e)))"

section \<open>Sample runs\<close>

text \<open>
  A provider that fails on the image \<open>bad\<close> at every attempt and otherwise returns the
  name of the image as its text; collaborators that succeed; the default arguments.
\<close>

definition sample_client :: "nat \<Rightarrow> CompletionArgs \<Rightarrow> error + CompletionResponse" where
  "sample_client n args =
     (if c_image args = ''bad'' then Inl (ExternalError ''boom'')
      else Inr \<lparr>r_content = c_image args, r_contentLength = length (c_image args),
                r_inputTokens = 1, r_outputTokens = 2\<rparr>)"

definition sample_keep :: "string \<Rightarrow> int \<Rightarrow> error + string" where
  "sample_keep imagePath pageNumber = Inr imagePath"

definition sample_accept :: "ModelProvider \<Rightarrow> ModelCredentials \<Rightarrow> error option" where
  "sample_accept provider creds = None"

definition sample_hook :: "Page \<Rightarrow> Summary \<Rightarrow> error option" where
  "sample_hook pg summary = None"

definition sample_split :: "jv \<Rightarrow> string list option \<Rightarrow> jv option \<times> jv option" where
  "sample_split sch perPage = (None, Some sch)"

definition sample_extract :: "nat \<Rightarrow> extraction_input \<Rightarrow> jv \<Rightarrow> error + ExtractionResponse" where
  "sample_extract n input sch =
     (if input = TextInput ''b'' then Inl (ExternalError ''no fields'')
      else Inr \<lparr>x_extracted = Some [(''title'', JStr ''t'')], x_inputTokens = 3,
                x_outputTokens = 4\<rparr>)"

definition sample_write :: "string \<Rightarrow> error option" where
  "sample_write text = None"

definition sample_images :: "string list \<Rightarrow> selector \<Rightarrow> error + string list" where
  "sample_images imagePaths sel = Inr imagePaths"

definition sample_env :: "string list \<Rightarrow> env" where
  "sample_env imagePaths =
     \<lparr>getTesseractScheduler = None, ensureDir = None,
      downloadFile = Inr (''.pdf'', ''/tmp/doc.pdf''),
      convertFileToPdf = Inr ''/tmp/doc.pdf'',
      convertPdfToImages = sample_images imagePaths,
      prepareWorkersForImageProcessing = None,
      createModel = sample_accept, cleanupImage = sample_keep,
      getCompletion_OCR = sample_client, onPostProcess = sample_hook,
      splitSchema = sample_split, getCompletion_EXTRACTION = sample_extract,
      writeFile = sample_write, fs_remove = None\<rparr>"

definition sample_args :: ZeroxArgs where
  "sample_args =
     \<lparr>cleanup = True, concurrency = 10, correctOrientation = True,
      credentials = OpenAICredentials [], errorMode = IGNORE, extractOnly = False,
      extractPerPage = None, filePath = ''doc.pdf'', maintainFormat = False,
      maxRetries = 1, modelProvider = OPENAI, openaiAPIKey = ''sk'', outputDir = None,
      pagesToConvertAsImages = Single (- 1), schema = None\<rparr>"

text \<open>The run in which each task is admitted, requests, is answered once and writes before
  the next one starts.\<close>

definition one_by_one :: "nat \<Rightarrow> event list" where
  "one_by_one n = concat (map (\<lambda>i. [Admit i, Request i, Respond i, Write i]) [0..<n])"

definition sample_schedule :: "nat \<Rightarrow> schedule" where
  "sample_schedule n = \<lparr>ocr_events = one_by_one n, extraction_order = [0..<Suc n]\<rparr>"

text \<open>Projections of the outcome of an invocation.\<close>

fun result_pages :: "((error + ZeroxOutput) \<times> world \<times> ZeroxArgs) option \<Rightarrow> Page option list" where
  "result_pages (Some (Inr out, w, args)) = o_pages out"
| "result_pages _ = []"

fun result_error :: "((error + ZeroxOutput) \<times> world \<times> ZeroxArgs) option \<Rightarrow> error option" where
  "result_error (Some (Inl e, w, args)) = Some e"
| "result_error _ = None"

fun result_world :: "((error + ZeroxOutput) \<times> world \<times> ZeroxArgs) option \<Rightarrow> world option" where
  "result_world (Some (r, w, args)) = Some w"
| "result_world None = None"

fun result_args :: "((error + ZeroxOutput) \<times> world \<times> ZeroxArgs) option \<Rightarrow> ZeroxArgs option" where
  "result_args (Some (r, w, args)) = Some args"
| "result_args None = None"

text \<open>The caller-facing page numbers of a page list, when every page has one, and the
  statuses.\<close>

fun numbers_of :: "Page option list \<Rightarrow> int list option" where
  "numbers_of [] = Some []"
| "numbers_of (None # ps) = None"
| "numbers_of (Some pg # ps) =
     (case page pg of
        None \<Rightarrow> None
      | Some n \<Rightarrow> map_option ((#) n) (numbers_of ps))"


definition statuses_of :: "Page option list \<Rightarrow> PageStatus option list" where
  "statuses_of ps = map (map_option status) ps"

text \<open>A run of two tasks in which the second task is answered and writes first.\<close>

definition out_of_order :: "event list" where
  "out_of_order =
     [Admit 0, Admit 1, Request 1, Request 0, Respond 1, Write 1, Respond 0, Write 0]"


text \<open>A run in format-continuity mode over the images \<open>a\<close>, \<open>bad\<close>, \<open>c\<close>: the state behind the
  first page, the page of the second image, and the state behind it.\<close>

definition continuity_args :: ZeroxArgs where
  "continuity_args = sample_args\<lparr>maintainFormat := True\<rparr>"

definition page_a :: Page where
  "page_a =
     \<lparr>content = ''a'', contentLength = 1, page = Some 1, status = SUCCESS, error = None,
      inputTokens = Some 1, outputTokens = Some 2\<rparr>"

definition page_bad :: Page where
  "page_bad =
     \<lparr>content = [], contentLength = 0, page = Some 2, status = ERROR,
      error = Some ''Failed to process page 2: boom'', inputTokens = None,
      outputTokens = None\<rparr>"

definition after_first :: RunState where
  "after_first =
     \<lparr>inputTokenCount = 1, outputTokenCount = 2, priorPage = ''a'', pages = [Some page_a],
      numSuccessfulOCRRequests = 1, numFailedOCRRequests = 0,
      numSuccessfulExtractionRequests = 0, numFailedExtractionRequests = 0,
      requests = [\<lparr>c_image = ''a'', c_maintainFormat = True, c_priorPage = []\<rparr>],
      extractionRequests = []\<rparr>"

definition after_second :: RunState where
  "after_second =
     \<lparr>inputTokenCount = 1, outputTokenCount = 2, priorPage = ''a'', pages = [Some page_a],
      numSuccessfulOCRRequests = 1, numFailedOCRRequests = 1,
      numSuccessfulExtractionRequests = 0, numFailedExtractionRequests = 0,
      requests = [\<lparr>c_image = ''a'', c_maintainFormat = True, c_priorPage = []\<rparr>,
                  \<lparr>c_image = ''bad'', c_maintainFormat = True, c_priorPage = ''a''\<rparr>],
      extractionRequests = []\<rparr>"

text \<open>The same images under THROW; the state in which the only request for \<open>bad\<close> has
  been logged; a task whose last attempt for \<open>bad\<close> is pending.\<close>

definition throw_args :: ZeroxArgs where
  "throw_args = continuity_args\<lparr>errorMode := THROW\<rparr>"

definition requested_bad :: RunState where
  "requested_bad =
     after_first\<lparr>requests :=
       [\<lparr>c_image = ''a'', c_maintainFormat = True, c_priorPage = []\<rparr>,
        \<lparr>c_image = ''bad'', c_maintainFormat = True, c_priorPage = ''a''\<rparr>]\<rparr>"

definition bad_request :: CompletionArgs where
  "bad_request = \<lparr>c_image = ''bad'', c_maintainFormat = False, c_priorPage = []\<rparr>"

definition waiting_bad :: "task list" where
  "waiting_bad = [Waiting 0 ''bad'' 0 bad_request]"

definition boom :: error where
  "boom = ExternalError ''boom''"

text \<open>The pages of an OCR phase that ended well; a post-processing hook that throws
  when it is handed an ERROR page.\<close>

fun phase_pages :: "(error + RunState) option \<Rightarrow> Page option list" where
  "phase_pages (Some (Inr s)) = pages s"
| "phase_pages _ = []"

definition page_c :: Page where
  "page_c =
     \<lparr>content = ''c'', contentLength = 1, page = Some 3, status = SUCCESS, error = None,
      inputTokens = Some 1, outputTokens = Some 2\<rparr>"

text \<open>The state behind the run \<open>one_by_one 3\<close> over the images \<open>a\<close>, \<open>bad\<close>, \<open>c\<close> under
  IGNORE.\<close>

definition ignored_state :: RunState where
  "ignored_state =
     \<lparr>inputTokenCount = 2, outputTokenCount = 4, priorPage = ''c'',
      pages = [Some page_a, Some page_bad, Some page_c],
      numSuccessfulOCRRequests = 2, numFailedOCRRequests = 1,
      numSuccessfulExtractionRequests = 0, numFailedExtractionRequests = 0,
      requests = [\<lparr>c_image = ''a'', c_maintainFormat = False, c_priorPage = []\<rparr>,
                  \<lparr>c_image = ''bad'', c_maintainFormat = False, c_priorPage = ''a''\<rparr>,
                  \<lparr>c_image = ''c'', c_maintainFormat = False, c_priorPage = ''a''\<rparr>],
      extractionRequests = []\<rparr>"

text \<open>The same run up to the answer that exhausts the retries of \<open>bad\<close>: the first task
  has finished, the second holds its ERROR page, the third waits for its admission.\<close>

definition until_failure :: "event list" where
  "until_failure = [Admit 0, Request 0, Respond 0, Write 0, Admit 1, Request 1, Respond 1]"

definition failure_tasks :: "task list" where
  "failure_tasks =
     [Finished page_a,
      Built page_bad \<lparr>totalPages = 3, ocr = Some (1, 1), extraction = None\<rparr>,
      Queued]"

definition failure_state :: RunState where
  "failure_state =
     \<lparr>inputTokenCount = 1, outputTokenCount = 2, priorPage = ''a'', pages = [Some page_a],
      numSuccessfulOCRRequests = 1, numFailedOCRRequests = 1,
      numSuccessfulExtractionRequests = 0, numFailedExtractionRequests = 0,
      requests = [\<lparr>c_image = ''a'', c_maintainFormat = False, c_priorPage = []\<rparr>,
                  \<lparr>c_image = ''bad'', c_maintainFormat = False, c_priorPage = ''a''\<rparr>],
      extractionRequests = []\<rparr>"

definition strict_hook :: "Page \<Rightarrow> Summary \<Rightarrow> error option" where
  "strict_hook pg summary = (if status pg = ERROR then Some (ExternalError ''hook'') else None)"

definition strict_env :: env where
  "strict_env = (sample_env [''a'', ''bad'', ''c''])\<lparr>onPostProcess := strict_hook\<rparr>"

text \<open>The requests of a concurrent phase that ended well.\<close>

fun run_requests :: "(error + RunState) option \<Rightarrow> CompletionArgs list" where
  "run_requests (Some (Inr s)) = requests s"
| "run_requests _ = []"

text \<open>The state and the tasks behind the run \<open>one_by_one 2\<close> over the images \<open>a\<close>, \<open>b\<close>.\<close>

definition page_b :: Page where
  "page_b =
     \<lparr>content = ''b'', contentLength = 1, page = Some 2, status = SUCCESS, error = None,
      inputTokens = Some 1, outputTokens = Some 2\<rparr>"

definition in_order_state :: RunState where
  "in_order_state =
     \<lparr>inputTokenCount = 2, outputTokenCount = 4, priorPage = ''b'',
      pages = [Some page_a, Some page_b],
      numSuccessfulOCRRequests = 2, numFailedOCRRequests = 0,
      numSuccessfulExtractionRequests = 0, numFailedExtractionRequests = 0,
      requests = [\<lparr>c_image = ''a'', c_maintainFormat = False, c_priorPage = []\<rparr>,
                  \<lparr>c_image = ''b'', c_maintainFormat = False, c_priorPage = ''a''\<rparr>],
      extractionRequests = []\<rparr>"

definition in_order_tasks :: "task list" where
  "in_order_tasks = [Finished page_a, Finished page_b]"

definition one_at_a_time :: ZeroxArgs where
  "one_at_a_time = sample_args\<lparr>concurrency := 1\<rparr>"

text \<open>Arguments with an unsorted selector, a download that fails, and arguments that carry
  Bedrock credentials next to an OpenAI key.\<close>

definition unsorted_args :: ZeroxArgs where
  "unsorted_args = sample_args\<lparr>pagesToConvertAsImages := Multiple [7, 3, 9]\<rparr>"

definition offline_env :: env where
  "offline_env = (sample_env [''a'', ''b''])\<lparr>downloadFile := Inl (ExternalError ''unreachable'')\<rparr>"

definition bedrock_credentials :: ModelCredentials where
  "bedrock_credentials = BedrockCredentials (Some ''AK'') ''us-east-1'' (Some ''SK'') None"

definition bedrock_args :: ZeroxArgs where
  "bedrock_args = sample_args\<lparr>credentials := bedrock_credentials, modelProvider := BEDROCK\<rparr>"

definition failed_world :: world where
  "failed_world =
     \<lparr>tempDirectory = True, removeCalls = 0, workerPool = False, terminateCalls = 1,
      outputFile = None, callerPages = Single (- 1)\<rparr>"

definition finished_world :: world where
  "finished_world =
     \<lparr>tempDirectory = False, removeCalls = 1, workerPool = False, terminateCalls = 1,
      outputFile = None, callerPages = Single (- 1)\<rparr>"

text \<open>The number of extraction tasks that the split of a schema starts.\<close>

definition task_count :: "env \<Rightarrow> ZeroxArgs \<Rightarrow> jv \<Rightarrow> string list \<Rightarrow> RunState \<Rightarrow> nat" where
  "task_count E a sch imagePaths s =
     (case splitSchema E sch (extractPerPage a) of
        (fullDocSchema, perPageSchema) \<Rightarrow>
          (case perPageSchema of
             None \<Rightarrow> 0
           | Some pps \<Rightarrow> length (perPage_inputs a imagePaths (pages s)))
          + (case fullDocSchema of None \<Rightarrow> 0 | Some fds \<Rightarrow> 1))"

text \<open>A schema with one field, split into a per-page and a full-document part; arguments
  that carry it; the state behind the OCR of the images \<open>a\<close>, \<open>b\<close>, whose second text the
  sample extraction client refuses.\<close>

definition title_schema :: jv where
  "title_schema = JObj [(''properties'', JObj [(''title'', JNull)])]"

definition split_both :: "jv \<Rightarrow> string list option \<Rightarrow> jv option \<times> jv option" where
  "split_both sch perPage = (Some sch, Some sch)"

definition both_env :: env where
  "both_env = (sample_env [''a'', ''b''])\<lparr>splitSchema := split_both\<rparr>"

definition schema_args :: ZeroxArgs where
  "schema_args = sample_args\<lparr>schema := Some title_schema, errorMode := IGNORE\<rparr>"

definition refused :: error where
  "refused = ExternalError ''no fields''"

definition requested_extraction :: RunState where
  "requested_extraction =
     in_order_state\<lparr>extractionRequests := [(TextInput ''b'', title_schema)]\<rparr>"

definition extraction_outcomes :: "(error + jobject option) list" where
  "extraction_outcomes =
     [Inr (Some [(''title'', JArr [entry 1 (JStr ''t'')])]), Inl refused,
      Inr (Some [(''title'', JStr ''t'')])]"

definition after_extraction :: RunState where
  "after_extraction =
     in_order_state\<lparr>inputTokenCount := 8, outputTokenCount := 12,
       numSuccessfulExtractionRequests := 2, numFailedExtractionRequests := 1,
       extractionRequests :=
         [(TextInput ''a'', title_schema), (TextInput ''b'', title_schema),
          (TextInput (joined_pages 0 (pages in_order_state)), title_schema)]\<rparr>"

section \<open>Properties of the aggregator\<close>

































section \<open>Bounded concurrency: the results land by index\<close>

lemma js_assign_length: "length (js_assign xs i v) = max (length xs) (Suc i)"
  by (auto simp: js_assign_def)

lemma js_assign_same: "js_assign xs i v ! i = Some v"
  by (auto simp: js_assign_def nth_append)

lemma js_assign_other: "j < length xs \<Longrightarrow> j \<noteq> i \<Longrightarrow> js_assign xs i v ! j = xs ! j"
  by (auto simp: js_assign_def nth_append)

lemma produced_for_iff:
  "produced_for E a imgs s i pg \<longleftrightarrow>
     (\<exists>buffer. cleanupImage E (imgs ! i) (int i + 1) = Inr buffer
        \<and> (\<exists>n<length (requests s). answers E a s buffer i pg n))"
  by (auto simp: produced_for_def list_ex_iff split: sum.splits)

lemma answers_mono:
  "n < length (requests s) \<Longrightarrow> requests s' = requests s @ xs
     \<Longrightarrow> answers E a s' buffer i pg n = answers E a s buffer i pg n"
  by (simp add: answers_def nth_append)

lemma produced_for_mono:
  assumes "produced_for E a imgs s i pg" and "requests s' = requests s @ xs"
  shows "produced_for E a imgs s' i pg"
proof -
  from assms(1) obtain buffer n where b: "cleanupImage E (imgs ! i) (int i + 1) = Inr buffer"
    and n: "n < length (requests s)" and ans: "answers E a s buffer i pg n"
    unfolding produced_for_iff by blast
  have "answers E a s' buffer i pg n" using answers_mono [OF n assms(2)] ans by simp
  moreover have "n < length (requests s')" using n assms(2) by simp
  ultimately show ?thesis unfolding produced_for_iff using b by blast
qed

lemma task_ok_mono:
  assumes "task_ok E a imgs s i t" and "requests s' = requests s @ xs" and "pages s' = pages s"
  shows "task_ok E a imgs s' i t"
proof (cases t)
  case (Waiting k buffer n args)
  then show ?thesis using assms by (simp add: nth_append)
next
  case (Built pg snapshot)
  then show ?thesis using assms(1) produced_for_mono [OF _ assms(2)] by simp
next
  case (Finished pg)
  then show ?thesis using assms(1,3) produced_for_mono [OF _ assms(2)] by simp
qed simp_all

lemma task_ok_write:
  assumes "task_ok E a imgs s i t" and "requests s' = requests s"
    and "pages s' = js_assign (pages s) j pg" and "i \<noteq> j"
  shows "task_ok E a imgs s' i t"
proof -
  have r: "requests s' = requests s @ []" using assms(2) by simp
  show ?thesis
  proof (cases t)
    case (Waiting k buffer n args)
    then show ?thesis using assms by simp
  next
    case (Built pg' snapshot)
    then show ?thesis using assms(1) produced_for_mono [OF _ r] by simp
  next
    case (Finished pg')
    then have p: "produced_for E a imgs s i pg'" and l: "i < length (pages s)"
      and e: "pages s ! i = Some pg'" using assms(1) by simp_all
    have "produced_for E a imgs s' i pg'" using produced_for_mono [OF p r] .
    moreover have "i < length (pages s')" using l assms(3) by (simp add: js_assign_length)
    moreover have "pages s' ! i = Some pg'" using l e assms(3,4) by (simp add: js_assign_other)
    ultimately show ?thesis using Finished by simp
  qed simp_all
qed

lemma tasks_ok_update:
  assumes "tasks_ok E a imgs (ts, s)" and "i < length ts" and "task_ok E a imgs s' i t'"
    and "length (pages s') \<le> length imgs"
    and "\<And>j. j < length ts \<Longrightarrow> j \<noteq> i \<Longrightarrow> task_ok E a imgs s j (ts ! j)
            \<Longrightarrow> task_ok E a imgs s' j (ts ! j)"
  shows "tasks_ok E a imgs (ts[i := t'], s')"
proof -
  have len: "length ts = length imgs" using assms(1) by (simp add: tasks_ok_def)
  have old: "\<And>j. j < length ts \<Longrightarrow> task_ok E a imgs s j (ts ! j)"
    using assms(1) by (simp add: tasks_ok_def list_all_iff)
  have "task_ok E a imgs s' j (ts[i := t'] ! j)" if "j < length ts" for j
  proof (cases "j = i")
    case True
    then show ?thesis using assms(2,3) by simp
  next
    case False
    then show ?thesis using assms(5) [OF that False old [OF that]] by simp
  qed
  then show ?thesis using len assms(4) by (simp add: tasks_ok_def list_all_iff)
qed

lemma tasks_ok_nth:
  "tasks_ok E a imgs (ts, s) \<Longrightarrow> i < length ts \<Longrightarrow> task_ok E a imgs s i (ts ! i)"
  by (simp add: tasks_ok_def list_all_iff)

lemma issue_requests: "requests (issue args s) = requests s @ [args]"
  by (simp add: issue_def)

lemma issue_pages: "pages (issue args s) = pages s"
  by (simp add: issue_def)

lemma ocr_success_requests: "requests (snd (ocr_success pn r s)) = requests s"
  by (simp add: ocr_success_def)

lemma ocr_success_pages: "pages (snd (ocr_success pn r s)) = pages s"
  by (simp add: ocr_success_def)

lemma ocr_success_fst: "fst (ocr_success pn r s) = success_page pn r"
  by (simp add: ocr_success_def)

lemma tasks_ok_issue:
  assumes ok: "tasks_ok E a imgs (ts, s)" and i: "i < length ts"
    and b: "cleanupImage E (imgs ! i) (int i + 1) = Inr buffer"
  shows "tasks_ok E a imgs
           (ts[i := Waiting k buffer (length (requests s)) (ocr_args buffer False s)],
            issue (ocr_args buffer False s) s)"
proof (rule tasks_ok_update [OF ok i])
  show "task_ok E a imgs (issue (ocr_args buffer False s) s) i
          (Waiting k buffer (length (requests s)) (ocr_args buffer False s))"
    using b by (simp add: issue_requests ocr_args_def)
  show "length (pages (issue (ocr_args buffer False s) s)) \<le> length imgs"
    using ok by (simp add: issue_pages tasks_ok_def)
  show "task_ok E a imgs (issue (ocr_args buffer False s) s) j (ts ! j)"
    if "task_ok E a imgs s j (ts ! j)" for j
    using that by (rule task_ok_mono) (simp_all add: issue_requests issue_pages)
qed

lemma tasks_ok_built:
  assumes ok: "tasks_ok E a imgs (ts, s)" and i: "i < length ts"
    and w: "ts ! i = Waiting k buffer n args"
    and o: "page_of_outcome (errorMode a) (int i + 1) (getCompletion_OCR E n args) = Some pg"
    and r: "requests s' = requests s" and p: "pages s' = pages s"
  shows "tasks_ok E a imgs (ts[i := Built pg snapshot], s')"
proof (rule tasks_ok_update [OF ok i])
  have t: "task_ok E a imgs s i (Waiting k buffer n args)"
    using tasks_ok_nth [OF ok i] w by simp
  then have "answers E a s' buffer i pg n" using o r by (simp add: answers_def)
  then show "task_ok E a imgs s' i (Built pg snapshot)"
    using t r unfolding task_ok.simps produced_for_iff by auto
  show "length (pages s') \<le> length imgs" using ok p by (simp add: tasks_ok_def)
  show "task_ok E a imgs s' j (ts ! j)" if "task_ok E a imgs s j (ts ! j)" for j
    using that by (rule task_ok_mono) (simp_all add: r p)
qed

lemma respond_inv:
  assumes ok: "tasks_ok E a imgs (ts, s)" and i: "i < length ts"
    and st: "respond E a (length imgs) i (ts ! i) (ts, s) = Some (Inr st')"
  shows "tasks_ok E a imgs st'"
proof (cases "ts ! i")
  case (Waiting k buffer n args)
  have t: "task_ok E a imgs s i (Waiting k buffer n args)"
    using tasks_ok_nth [OF ok i] Waiting by simp
  show ?thesis
  proof (cases "getCompletion_OCR E n args")
    case (Inr response)
    have o: "page_of_outcome (errorMode a) (int i + 1) (getCompletion_OCR E n args)
               = Some (success_page (int i + 1) response)"
      using Inr by (simp add: page_of_outcome_def)
    have "st' = (ts[i := Built (success_page (int i + 1) response)
                    (progressSummary (length imgs) (snd (ocr_success (int i + 1) response s)))],
                 snd (ocr_success (int i + 1) response s))"
      using st Waiting Inr by (simp add: ocr_success_def)
    then show ?thesis
      using tasks_ok_built [OF ok i Waiting o ocr_success_requests ocr_success_pages] by simp
  next
    case (Inl e)
    show ?thesis
    proof (cases k)
      case (Suc k')
      have "st' = (ts[i := Waiting k' buffer (length (requests s)) (ocr_args buffer False s)],
                   issue (ocr_args buffer False s) s)"
        using st Waiting Inl Suc by simp
      moreover have "cleanupImage E (imgs ! i) (int i + 1) = Inr buffer" using t by simp
      ultimately show ?thesis using tasks_ok_issue [OF ok i] by simp
    next
      case 0
      from st Waiting Inl 0 have m: "errorMode a \<noteq> THROW"
        by (auto simp: ocr_failure_def split: if_splits)
      have o: "page_of_outcome (errorMode a) (int i + 1) (getCompletion_OCR E n args)
               = Some (error_page (int i + 1) e)"
        using Inl m by (simp add: page_of_outcome_def)
      let ?s' = "s\<lparr>numFailedOCRRequests := numFailedOCRRequests s + 1\<rparr>"
      have "st' = (ts[i := Built (error_page (int i + 1) e) (progressSummary (length imgs) ?s')], ?s')"
        using st Waiting Inl 0 m by (simp add: ocr_failure_def)
      then show ?thesis
        using tasks_ok_built [OF ok i Waiting o, of ?s'] by simp
    qed
  qed
qed (use st in simp_all)

lemma ocr_step_inv:
  assumes ok: "tasks_ok E a imgs st" and st: "ocr_step E a imgs ev st = Some (Inr st')"
  shows "tasks_ok E a imgs st'"
proof -
  obtain ts s where [simp]: "st = (ts, s)" by (cases st)
  have ok': "tasks_ok E a imgs (ts, s)" using ok by simp
  show ?thesis
  proof (cases ev)
    case (Admit i)
    then have i: "i < length ts" and e: "st' = (ts[i := Admitted], s)"
      using st by (auto split: if_splits)
    show ?thesis unfolding e
      by (rule tasks_ok_update [OF ok' i]) (use ok' in \<open>simp_all add: tasks_ok_def\<close>)
  next
    case (Request i)
    then have i: "i < length ts" using st by (auto split: if_splits)
    from Request st obtain buffer where b: "cleanupImage E (imgs ! i) (int i + 1) = Inr buffer"
      and e: "st' = (ts[i := Waiting (maxRetries a - 1) buffer (length (requests s))
                     (ocr_args buffer False s)], issue (ocr_args buffer False s) s)"
      by (auto split: if_splits sum.splits)
    show ?thesis unfolding e by (rule tasks_ok_issue [OF ok' i b])
  next
    case (Respond i)
    then have i: "i < length ts" using st by (auto split: if_splits)
    have "respond E a (length imgs) i (ts ! i) (ts, s) = Some (Inr st')"
      using st Respond i by simp
    then show ?thesis by (rule respond_inv [OF ok' i])
  next
    case (Write i)
    then have i: "i < length ts" using st by (auto split: if_splits)
    from Write st i obtain pg snapshot where b: "ts ! i = Built pg snapshot"
      and e: "st' = (ts[i := Finished pg], s\<lparr>pages := js_assign (pages s) i pg\<rparr>)"
      by (auto split: task.splits option.splits)
    have len: "length ts = length imgs" "length (pages s) \<le> length imgs"
      using ok' by (simp_all add: tasks_ok_def)
    show ?thesis unfolding e
    proof (rule tasks_ok_update [OF ok' i])
      have "produced_for E a imgs s i pg" using tasks_ok_nth [OF ok' i] b by simp
      then have "produced_for E a imgs (s\<lparr>pages := js_assign (pages s) i pg\<rparr>) i pg"
        by (rule produced_for_mono [where xs = "[]"]) simp
      then show "task_ok E a imgs (s\<lparr>pages := js_assign (pages s) i pg\<rparr>) i (Finished pg)"
        by (simp add: js_assign_length js_assign_same)
      show "length (pages (s\<lparr>pages := js_assign (pages s) i pg\<rparr>)) \<le> length imgs"
        using len i by (simp add: js_assign_length)
      show "task_ok E a imgs (s\<lparr>pages := js_assign (pages s) i pg\<rparr>) j (ts ! j)"
        if "j \<noteq> i" "task_ok E a imgs s j (ts ! j)" for j
        using that(2) by (rule task_ok_write [where j = i and pg = pg]) (simp_all add: that(1))
    qed
  qed
qed

lemma ocr_run_inv:
  "tasks_ok E a imgs st \<Longrightarrow> ocr_run E a imgs evs st = Some (Inr st') \<Longrightarrow> tasks_ok E a imgs st'"
proof (induction evs arbitrary: st)
  case Nil
  then show ?case by simp
next
  case (Cons ev evs)
  from Cons.prems(2) obtain st1 where 1: "ocr_step E a imgs ev st = Some (Inr st1)"
    and 2: "ocr_run E a imgs evs st1 = Some (Inr st')"
    by (auto split: option.splits sum.splits)
  from Cons.IH [OF ocr_step_inv [OF Cons.prems(1) 1] 2] show ?case .
qed

lemma tasks_ok_initial:
  "pages s = [] \<Longrightarrow> tasks_ok E a imgs (replicate (length imgs) Queued, s)"
  by (simp add: tasks_ok_def list_all_iff)



lemma finished_cases: "finished t \<Longrightarrow> \<exists>pg. t = Finished pg"
  by (cases t) simp_all

lemma all_finished_pages:
  assumes ok: "tasks_ok E a imgs (ts, s)" and fin: "list_all finished ts"
  shows "length (pages s) = length imgs
         \<and> (\<forall>i<length imgs. \<exists>pg. pages s ! i = Some pg \<and> produced_for E a imgs s i pg)"
proof -
  have len: "length ts = length imgs" and le: "length (pages s) \<le> length imgs"
    using ok by (simp_all add: tasks_ok_def)
  have each: "\<exists>pg. pages s ! i = Some pg \<and> produced_for E a imgs s i pg \<and> i < length (pages s)"
    if "i < length imgs" for i
  proof -
    have i: "i < length ts" using that len by simp
    then have "finished (ts ! i)" using fin by (simp add: list_all_length)
    then obtain pg where "ts ! i = Finished pg" using finished_cases by blast
    then show ?thesis using tasks_ok_nth [OF ok i] by simp
  qed
  have "length imgs \<le> length (pages s)"
  proof (cases "length imgs")
    case 0
    then show ?thesis by simp
  next
    case (Suc m)
    then have "m < length (pages s)" using each [of m] by auto
    then show ?thesis using Suc by simp
  qed
  then show ?thesis using le each by auto
qed

lemma ocr_concurrent_tasks:
  assumes "ocr_concurrent E a imgs evs s0 = Some (Inr s)"
  shows "\<exists>ts. ocr_run E a imgs evs (replicate (length imgs) Queued, s0) = Some (Inr (ts, s))
           \<and> list_all finished ts"
  using assms by (auto simp: ocr_concurrent_def split: option.splits sum.splits if_splits)

lemma length_formatPages: "length (formatPages sel k ps) = length ps"
  by (induction ps arbitrary: k) simp_all

lemma formatPages_nth:
  "i < length ps \<Longrightarrow>
     formatPages sel k ps ! i = map_option (\<lambda>pg. pg\<lparr>page := correctPageNumber sel (k + i)\<rparr>) (ps ! i)"
proof (induction ps arbitrary: i k)
  case Nil
  then show ?case by simp
next
  case (Cons p ps)
  show ?case
  proof (cases i)
    case 0
    then show ?thesis by simp
  next
    case (Suc j)
    then have "j < length ps" using Cons.prems by simp
    from Cons.IH [OF this, of "Suc k"] show ?thesis using Suc by simp
  qed
qed








section \<open>A task that runs without interruption\<close>

text \<open>
  The segments of the concurrent model cut \<^verbatim>\<open>processOCR\<close> at its awaits.  Put back
  together they are \<^verbatim>\<open>processOCR\<close>: after its admission a task whose segments follow
  one another with nothing in between ends as \<^verbatim>\<open>processOCR\<close> does, and writes the page
  at its index.
\<close>

lemma ocr_run_append:
  "ocr_run E a imgs (xs @ ys) st =
     (case ocr_run E a imgs xs st of
        None \<Rightarrow> None
      | Some (Inl e) \<Rightarrow> Some (Inl e)
      | Some (Inr st') \<Rightarrow> ocr_run E a imgs ys st')"
  by (induction xs arbitrary: st) (auto split: option.splits sum.splits)

lemma respond_drive:
  assumes "i < length ts"
  shows "\<exists>m. ocr_run E a imgs (replicate m (Respond i))
               (ts[i := Waiting k buffer (length (requests s)) (ocr_args buffer False s)],
                issue (ocr_args buffer False s) s)
           = (case ocr_outcome (errorMode a) (int i + 1)
                     (runRetries (ocr_call E buffer False) k s) of
                Inl e \<Rightarrow> Some (Inl e)
              | Inr (pg, s') \<Rightarrow>
                  Some (Inr (ts[i := Built pg (progressSummary (length imgs) s')], s')))"
proof (induction k arbitrary: s)
  case 0
  let ?args = "ocr_args buffer False s" and ?n = "length (requests s)"
  have "ocr_run E a imgs (replicate 1 (Respond i))
          (ts[i := Waiting 0 buffer ?n ?args], issue ?args s)
        = (case ocr_outcome (errorMode a) (int i + 1)
                 (runRetries (ocr_call E buffer False) 0 s) of
             Inl e \<Rightarrow> Some (Inl e)
           | Inr (pg, s') \<Rightarrow>
               Some (Inr (ts[i := Built pg (progressSummary (length imgs) s')], s')))"
    using assms
    by (cases "getCompletion_OCR E ?n ?args")
      (auto simp: ocr_call_def ocr_outcome_def ocr_failure_def split: prod.splits sum.splits)
  then show ?case by blast
next
  case (Suc k)
  let ?args = "ocr_args buffer False s" and ?n = "length (requests s)"
  let ?s1 = "issue ?args s"
  show ?case
  proof (cases "getCompletion_OCR E ?n ?args")
    case (Inr response)
    have "ocr_run E a imgs (replicate 1 (Respond i))
            (ts[i := Waiting (Suc k) buffer ?n ?args], ?s1)
          = (case ocr_outcome (errorMode a) (int i + 1)
                   (runRetries (ocr_call E buffer False) (Suc k) s) of
               Inl e \<Rightarrow> Some (Inl e)
             | Inr (pg, s') \<Rightarrow>
                 Some (Inr (ts[i := Built pg (progressSummary (length imgs) s')], s')))"
      using assms Inr
      by (auto simp: ocr_call_def ocr_outcome_def split: prod.splits)
    then show ?thesis by blast
  next
    case (Inl e)
    from Suc.IH [of ?s1] obtain m
      where m: "ocr_run E a imgs (replicate m (Respond i))
                  (ts[i := Waiting k buffer (length (requests ?s1)) (ocr_args buffer False ?s1)],
                   issue (ocr_args buffer False ?s1) ?s1)
                = (case ocr_outcome (errorMode a) (int i + 1)
                         (runRetries (ocr_call E buffer False) k ?s1) of
                     Inl e \<Rightarrow> Some (Inl e)
                   | Inr (pg, s') \<Rightarrow>
                       Some (Inr (ts[i := Built pg (progressSummary (length imgs) s')], s')))"
      by blast
    have r: "runRetries (ocr_call E buffer False) (Suc k) s
               = runRetries (ocr_call E buffer False) k ?s1"
      using Inl by (simp add: ocr_call_def)
    have "ocr_run E a imgs (replicate (Suc m) (Respond i))
            (ts[i := Waiting (Suc k) buffer ?n ?args], ?s1)
          = ocr_run E a imgs (replicate m (Respond i))
              (ts[i := Waiting k buffer (length (requests ?s1)) (ocr_args buffer False ?s1)],
               issue (ocr_args buffer False ?s1) ?s1)"
      using assms Inl by simp
    then show ?thesis unfolding r using m by metis
  qed
qed

lemma uninterrupted_task:
  assumes "i < length ts" and "i < length imgs" and "ts ! i = Admitted"
  shows "\<exists>m. ocr_run E a imgs (Request i # replicate m (Respond i) @ [Write i]) (ts, s)
           = (case processOCR E a (length imgs) (imgs ! i) (int i + 1) False s of
                (Inl e, s') \<Rightarrow> Some (Inl e)
              | (Inr pg, s') \<Rightarrow>
                  Some (Inr (ts[i := Finished pg], s'\<lparr>pages := js_assign (pages s') i pg\<rparr>)))"
proof (cases "cleanupImage E (imgs ! i) (int i + 1)")
  case (Inl e)
  then show ?thesis using assms by (simp add: processOCR_def)
next
  case (Inr buffer)
  let ?k = "maxRetries a - 1"
  let ?st = "(ts[i := Waiting ?k buffer (length (requests s)) (ocr_args buffer False s)],
              issue (ocr_args buffer False s) s)"
  let ?r = "runRetries (ocr_call E buffer False) ?k s"
  from respond_drive [OF assms(1), of E a imgs ?k buffer s] obtain m
    where m: "ocr_run E a imgs (replicate m (Respond i)) ?st
                = (case ocr_outcome (errorMode a) (int i + 1) ?r of
                     Inl e \<Rightarrow> Some (Inl e)
                   | Inr (pg, s') \<Rightarrow>
                       Some (Inr (ts[i := Built pg (progressSummary (length imgs) s')], s')))"
    by blast
  have start: "ocr_run E a imgs (Request i # replicate m (Respond i) @ [Write i]) (ts, s)
                 = ocr_run E a imgs (replicate m (Respond i) @ [Write i]) ?st"
    using assms Inr by simp
  have "ocr_run E a imgs (replicate m (Respond i) @ [Write i]) ?st
          = (case processOCR E a (length imgs) (imgs ! i) (int i + 1) False s of
               (Inl e, s') \<Rightarrow> Some (Inl e)
             | (Inr pg, s') \<Rightarrow>
                 Some (Inr (ts[i := Finished pg], s'\<lparr>pages := js_assign (pages s') i pg\<rparr>)))"
  proof (cases "ocr_outcome (errorMode a) (int i + 1) ?r")
    case (Inl e)
    then show ?thesis unfolding ocr_run_append m using Inr
      by (simp add: processOCR_def)
  next
    case o: (Inr ps)
    obtain pg s' where ps: "ps = (pg, s')" by (cases ps)
    show ?thesis unfolding ocr_run_append m using Inr o ps assms(1)
      by (cases "onPostProcess E pg (progressSummary (length imgs) s')")
        (simp_all add: processOCR_def)
  qed
  then show ?thesis using start by metis
qed

section \<open>The sequential loop\<close>

lemma runRetries_preserves:
  assumes "\<And>s r s'. operation s = (r, s') \<Longrightarrow> f s' = f s"
  shows "runRetries operation k s = (r, s') \<Longrightarrow> f s' = f s"
proof (induction k arbitrary: s)
  case 0
  then show ?case using assms by simp
next
  case (Suc k)
  obtain r1 s1 where o: "operation s = (r1, s1)" by (cases "operation s")
  have 1: "f s1 = f s" using assms [OF o] .
  show ?case
  proof (cases r1)
    case (Inl e)
    then have "runRetries operation k s1 = (r, s')" using Suc.prems o by simp
    from Suc.IH [OF this] 1 show ?thesis by simp
  next
    case (Inr v)
    then show ?thesis using Suc.prems o 1 by simp
  qed
qed

lemma ocr_call_pages: "ocr_call E buffer mf s = (r, s') \<Longrightarrow> pages s' = pages s"
  by (auto simp: ocr_call_def issue_def)

lemma ocr_outcome_pages: "ocr_outcome m pn (r, s) = Inr (pg, s') \<Longrightarrow> pages s' = pages s"
  by (auto simp: ocr_outcome_def ocr_success_def ocr_failure_def split: sum.splits if_splits)

lemma processOCR_pages:
  assumes "processOCR E a n imagePath pn mf s = (r, s')"
  shows "pages s' = pages s"
proof (cases "cleanupImage E imagePath pn")
  case (Inl e)
  then show ?thesis using assms by (simp add: processOCR_def)
next
  case (Inr buffer)
  obtain r1 s1 where rr: "runRetries (ocr_call E buffer mf) (maxRetries a - 1) s = (r1, s1)"
    by (cases "runRetries (ocr_call E buffer mf) (maxRetries a - 1) s")
  have 1: "pages s1 = pages s"
    using runRetries_preserves [of "ocr_call E buffer mf" pages, OF ocr_call_pages rr] .
  show ?thesis
  proof (cases "ocr_outcome (errorMode a) pn (r1, s1)")
    case (Inl e)
    then show ?thesis using assms Inr rr 1 by (simp add: processOCR_def)
  next
    case o: (Inr ps)
    obtain pg s2 where ps: "ps = (pg, s2)" by (cases ps)
    have "pages s2 = pages s1" using o ps ocr_outcome_pages by blast
    then show ?thesis using assms Inr rr 1 o ps
      by (auto simp: processOCR_def split: option.splits)
  qed
qed

lemma statuses_of_append: "statuses_of (ps @ qs) = statuses_of ps @ statuses_of qs"
  by (simp add: statuses_of_def)

lemma not_ERROR: "st \<noteq> ERROR \<Longrightarrow> st = SUCCESS"
  by (cases st) simp_all

lemma sequential_prefix:
  assumes "ocr_sequential E a n xs i s = (None, s1)"
    and "statuses_of (pages s1) = statuses_of (pages s) @ replicate (length xs) (Some SUCCESS)"
  shows "ocr_sequential E a n (xs @ ys) i s = ocr_sequential E a n ys (i + length xs) s1"
  using assms
proof (induction xs arbitrary: i s)
  case Nil
  then show ?case by simp
next
  case (Cons x xs)
  obtain r s' where p: "processOCR E a n x (int i + 1) True s = (r, s')"
    by (cases "processOCR E a n x (int i + 1) True s")
  have ps: "pages s' = pages s" using processOCR_pages [OF p] .
  from Cons.prems(1) p obtain pg where r: "r = Inr pg" by (cases r) auto
  let ?s = "s'\<lparr>pages := pages s' @ [Some pg]\<rparr>"
  have ok: "status pg \<noteq> ERROR"
  proof
    assume e: "status pg = ERROR"
    then have "s1 = ?s" using Cons.prems(1) p r by simp
    then have "statuses_of (pages s1) = statuses_of (pages s) @ [Some ERROR]"
      using ps e by (simp add: statuses_of_def)
    then show False using Cons.prems(2) by simp
  qed
  then have su: "status pg = SUCCESS" by (rule not_ERROR)
  have 1: "ocr_sequential E a n xs (Suc i) ?s = (None, s1)"
    using Cons.prems(1) p r ok by simp
  have 2: "statuses_of (pages s1)
             = statuses_of (pages ?s) @ replicate (length xs) (Some SUCCESS)"
    using Cons.prems(2) ps su by (simp add: statuses_of_def)
  have "ocr_sequential E a n ((x # xs) @ ys) i s = ocr_sequential E a n (xs @ ys) (Suc i) ?s"
    using p r ok by simp
  then show ?case using Cons.IH [OF 1 2] by simp
qed

text \<open>
  C2.  In format-continuity mode with the error mode IGNORE: when the pages before index
  \<open>k\<close> resolve to SUCCESS and the page at index \<open>k\<close> resolves to ERROR, the phase produces
  exactly \<open>k + 1\<close> pages, the last one with status ERROR, and leaves the state in which
  the page at \<open>k\<close> left it: the run is the run on the first \<open>k + 1\<close> images, no later
  page is processed.
\<close>

theorem first_error_stops_sequential:
  assumes "maintainFormat a" and "\<not> extractOnly a" and "errorMode a = IGNORE"
    and "k < length imagePaths" and "pages s0 = []"
    and "ocr_sequential E a (length imagePaths) (take k imagePaths) 0 s0 = (None, s1)"
    and "statuses_of (pages s1) = replicate k (Some SUCCESS)"
    and "processOCR E a (length imagePaths) (imagePaths ! k) (int k + 1) True s1 = (Inr pg, s2)"
    and "status pg = ERROR"
  shows "ocr_phase E evs a imagePaths s0 = Some (Inr (s2\<lparr>pages := pages s1 @ [Some pg]\<rparr>))
       \<and> length (pages s1 @ [Some pg]) = k + 1
       \<and> statuses_of (pages s1 @ [Some pg]) = replicate k (Some SUCCESS) @ [Some ERROR]
       \<and> ocr_sequential E a (length imagePaths) imagePaths 0 s0
           = ocr_sequential E a (length imagePaths) (take (Suc k) imagePaths) 0 s0"
proof -
  let ?n = "length imagePaths"
  have len: "length (take k imagePaths) = k" using assms(4) by simp
  have st: "statuses_of (pages s1)
              = statuses_of (pages s0) @ replicate (length (take k imagePaths)) (Some SUCCESS)"
    using assms(5,7) len by (simp add: statuses_of_def)
  have ps: "pages s2 = pages s1" using processOCR_pages [OF assms(8)] .
  have step: "ocr_sequential E a ?n (imagePaths ! k # ys) k s1
                = (None, s2\<lparr>pages := pages s1 @ [Some pg]\<rparr>)" for ys
    using assms(8,9) ps by simp
  have split: "imagePaths = take k imagePaths @ (imagePaths ! k # drop (Suc k) imagePaths)"
    using assms(4) by (simp add: id_take_nth_drop [symmetric])
  have "ocr_sequential E a ?n imagePaths 0 s0
          = ocr_sequential E a ?n
              (take k imagePaths @ (imagePaths ! k # drop (Suc k) imagePaths)) 0 s0"
    by (subst split) (rule refl)
  also have "\<dots> = ocr_sequential E a ?n (imagePaths ! k # drop (Suc k) imagePaths)
                      (0 + length (take k imagePaths)) s1"
    by (rule sequential_prefix [OF assms(6) st])
  also have "\<dots> = (None, s2\<lparr>pages := pages s1 @ [Some pg]\<rparr>)"
    by (simp only: len add_0 step)
  finally have 1: "ocr_sequential E a ?n imagePaths 0 s0
                     = (None, s2\<lparr>pages := pages s1 @ [Some pg]\<rparr>)" .
  have "ocr_sequential E a ?n (take (Suc k) imagePaths) 0 s0
          = ocr_sequential E a ?n (take k imagePaths @ [imagePaths ! k]) 0 s0"
    using assms(4) by (simp only: take_Suc_conv_app_nth)
  also have "\<dots> = ocr_sequential E a ?n [imagePaths ! k] (0 + length (take k imagePaths)) s1"
    by (rule sequential_prefix [OF assms(6) st])
  also have "\<dots> = (None, s2\<lparr>pages := pages s1 @ [Some pg]\<rparr>)"
    by (simp only: len add_0 step)
  finally have 2: "ocr_sequential E a ?n (take (Suc k) imagePaths) 0 s0
                     = (None, s2\<lparr>pages := pages s1 @ [Some pg]\<rparr>)" .
  have 3: "length (pages s1 @ [Some pg]) = k + 1"
  proof -
    have "length (statuses_of (pages s1)) = k" unfolding assms(7) by simp
    then show ?thesis by (simp add: statuses_of_def)
  qed
  have 4: "statuses_of (pages s1 @ [Some pg]) = replicate k (Some SUCCESS) @ [Some ERROR]"
    using assms(7,9) by (simp add: statuses_of_def)
  have 5: "ocr_phase E evs a imagePaths s0 = Some (Inr (s2\<lparr>pages := pages s1 @ [Some pg]\<rparr>))"
    using assms(1,2) 1 by (simp add: ocr_phase_def)
  show ?thesis using 1 2 3 4 5 by simp
qed

theorem first_error_stops_sequential_witness:
  "maintainFormat continuity_args \<and> \<not> extractOnly continuity_args
   \<and> errorMode continuity_args = IGNORE
   \<and> 1 < length [''a'', ''bad'', ''c'']
   \<and> pages initial_state = []
   \<and> ocr_sequential (sample_env [''a'', ''bad'', ''c'']) continuity_args
         (length [''a'', ''bad'', ''c'']) (take 1 [''a'', ''bad'', ''c'']) 0 initial_state
       = (None, after_first)
   \<and> statuses_of (pages after_first) = replicate 1 (Some SUCCESS)
   \<and> processOCR (sample_env [''a'', ''bad'', ''c'']) continuity_args
         (length [''a'', ''bad'', ''c'']) ([''a'', ''bad'', ''c''] ! 1) (int 1 + 1) True after_first
       = (Inr page_bad, after_second)
   \<and> status page_bad = ERROR
   \<and> ocr_phase (sample_env [''a'', ''bad'', ''c'']) [] continuity_args
         [''a'', ''bad'', ''c''] initial_state
       = Some (Inr (after_second\<lparr>pages := pages after_first @ [Some page_bad]\<rparr>))
   \<and> length (pages after_first @ [Some page_bad]) = 1 + 1
   \<and> statuses_of (pages after_first @ [Some page_bad])
       = replicate 1 (Some SUCCESS) @ [Some ERROR]
   \<and> ocr_sequential (sample_env [''a'', ''bad'', ''c'']) continuity_args
         (length [''a'', ''bad'', ''c'']) [''a'', ''bad'', ''c''] 0 initial_state
       = ocr_sequential (sample_env [''a'', ''bad'', ''c'']) continuity_args
           (length [''a'', ''bad'', ''c'']) (take (Suc 1) [''a'', ''bad'', ''c'']) 0 initial_state"
proof -
  have m: "maintainFormat continuity_args" "\<not> extractOnly continuity_args" by code_simp+
  have h1: "errorMode continuity_args = IGNORE" by code_simp
  have h2: "1 < length [''a'', ''bad'', ''c'']" by simp
  have h3: "pages initial_state = []" by (simp add: initial_state_def)
  have h4: "ocr_sequential (sample_env [''a'', ''bad'', ''c'']) continuity_args
         (length [''a'', ''bad'', ''c'']) (take 1 [''a'', ''bad'', ''c'']) 0 initial_state
       = (None, after_first)" by code_simp
  have h5: "statuses_of (pages after_first) = replicate 1 (Some SUCCESS)" by code_simp
  have h6: "processOCR (sample_env [''a'', ''bad'', ''c'']) continuity_args
         (length [''a'', ''bad'', ''c'']) ([''a'', ''bad'', ''c''] ! 1) (int 1 + 1) True after_first
       = (Inr page_bad, after_second)"
    by code_simp
  have h7: "status page_bad = ERROR" by code_simp
  show ?thesis
    using m h1 h2 h3 h4 h5 h6 h7
      first_error_stops_sequential [OF m h1 h2 h3 h4 h5 h6 h7, of "[]"]
    by (intro conjI) blast+
qed

section \<open>Exhausted retries\<close>

lemma error_page_fields:
  "status (error_page pn e) = ERROR" "content (error_page pn e) = []"
  "contentLength (error_page pn e) = 0"
  "error (error_page pn e)
     = Some (''Failed to process page '' @ show_int pn @ '': '' @ error_text e)"
  by (simp_all add: error_page_def)

lemma processOCR_throw:
  assumes "cleanupImage E imagePath pn = Inr buffer"
    and "runRetries (ocr_call E buffer mf) (maxRetries a - 1) s = (Inl e, s')"
    and "errorMode a = THROW"
  shows "processOCR E a n imagePath pn mf s = (Inl e, s')"
  using assms by (simp add: processOCR_def ocr_outcome_def ocr_failure_def)

lemma processOCR_ignore:
  assumes "cleanupImage E imagePath pn = Inr buffer"
    and "runRetries (ocr_call E buffer mf) (maxRetries a - 1) s = (Inl e, s')"
    and "errorMode a = IGNORE"
    and "onPostProcess E (error_page pn e)
           (progressSummary n (s'\<lparr>numFailedOCRRequests := numFailedOCRRequests s' + 1\<rparr>)) = None"
  shows "processOCR E a n imagePath pn mf s
           = (Inr (error_page pn e), s'\<lparr>numFailedOCRRequests := numFailedOCRRequests s' + 1\<rparr>)"
  using assms by (simp add: processOCR_def ocr_outcome_def ocr_failure_def)

lemma processOCR_exhausted:
  assumes "cleanupImage E imagePath pn = Inr buffer"
    and "runRetries (ocr_call E buffer mf) (maxRetries a - 1) s = (Inl e, s')"
    and "errorMode a = IGNORE"
  shows "processOCR E a n imagePath pn mf s
           = (case onPostProcess E (error_page pn e)
                     (progressSummary n (s'\<lparr>numFailedOCRRequests := numFailedOCRRequests s' + 1\<rparr>)) of
                Some e' \<Rightarrow> (Inl e', s'\<lparr>numFailedOCRRequests := numFailedOCRRequests s' + 1\<rparr>)
              | None \<Rightarrow>
                  (Inr (error_page pn e),
                   s'\<lparr>numFailedOCRRequests := numFailedOCRRequests s' + 1\<rparr>))"
  using assms
  by (cases "onPostProcess E (error_page pn e)
               (progressSummary n (s'\<lparr>numFailedOCRRequests := numFailedOCRRequests s' + 1\<rparr>))")
    (simp_all add: processOCR_def ocr_outcome_def ocr_failure_def)

lemma respond_throw:
  assumes "i < length ts" and "ts ! i = Waiting 0 buffer k args"
    and "getCompletion_OCR E k args = Inl e" and "errorMode a = THROW"
  shows "ocr_step E a imgs (Respond i) (ts, s) = Some (Inl e)"
  using assms by (simp add: ocr_failure_def)

lemma respond_ignore:
  assumes "i < length ts" and "ts ! i = Waiting 0 buffer k args"
    and "getCompletion_OCR E k args = Inl e" and "errorMode a = IGNORE"
  shows "ocr_step E a imgs (Respond i) (ts, s)
           = Some (Inr (ts[i := Built (error_page (int i + 1) e)
                          (progressSummary (length imgs)
                             (s\<lparr>numFailedOCRRequests := numFailedOCRRequests s + 1\<rparr>))],
                        s\<lparr>numFailedOCRRequests := numFailedOCRRequests s + 1\<rparr>))"
  using assms by (simp add: ocr_failure_def)

text \<open>
  Under IGNORE, when no step before the request and no post-processing hook throws, no
  segment of a concurrent run throws.
\<close>

lemma ocr_step_no_error:
  assumes "errorMode a = IGNORE"
    and "\<forall>i<length imgs. \<exists>b. cleanupImage E (imgs ! i) (int i + 1) = Inr b"
    and "\<forall>pg sm. onPostProcess E pg sm = None"
  shows "ocr_step E a imgs ev st \<noteq> Some (Inl e)"
proof -
  obtain ts s where st: "st = (ts, s)" by (cases st)
  show ?thesis
  proof (cases ev)
    case (Admit i)
    then show ?thesis using st by simp
  next
    case (Request i)
    show ?thesis
    proof (cases "i < length imgs")
      case True
      with assms(2) obtain b where "cleanupImage E (imgs ! i) (int i + 1) = Inr b" by blast
      then show ?thesis using st Request by simp
    next
      case False
      then show ?thesis using st Request by simp
    qed
  next
    case (Respond i)
    show ?thesis
    proof (cases "i < length ts")
      case True
      show ?thesis
      proof (cases "ts ! i")
        case (Waiting k buffer n args)
        then show ?thesis using st Respond True assms(1)
          by (auto simp: ocr_failure_def split: sum.splits nat.splits prod.splits)
      qed (use st Respond True in simp_all)
    next
      case False
      then show ?thesis using st Respond by simp
    qed
  next
    case (Write i)
    then show ?thesis using st assms(3) by (auto split: task.splits)
  qed
qed

lemma ocr_run_no_error:
  assumes "errorMode a = IGNORE"
    and "\<forall>i<length imgs. \<exists>b. cleanupImage E (imgs ! i) (int i + 1) = Inr b"
    and "\<forall>pg sm. onPostProcess E pg sm = None"
  shows "ocr_run E a imgs evs st \<noteq> Some (Inl e)"
proof (induction evs arbitrary: st)
  case Nil
  show ?case by simp
next
  case (Cons ev evs)
  show ?case
    using ocr_step_no_error [OF assms, of ev st] Cons.IH
    by (auto split: option.splits sum.splits)
qed

lemma processOCR_returns:
  assumes "errorMode a = IGNORE" and "cleanupImage E imagePath pn = Inr b"
    and "\<forall>pg sm. onPostProcess E pg sm = None"
  shows "\<exists>pg s'. processOCR E a n imagePath pn mf s = (Inr pg, s')"
  using assms
  by (auto simp: processOCR_def ocr_outcome_def ocr_failure_def Let_def
      split: prod.splits sum.splits)

text \<open>
  The limiter goes on: from a state in which the first tasks have finished and the others
  wait in the queue, the next task can be admitted and run to its end, and so on to the
  last one.
\<close>

lemma finished_not_queued: "list_all finished fs \<Longrightarrow> \<not> list_ex queued fs"
  by (induction fs) (auto dest: finished_cases)

lemma finished_not_active: "list_all finished fs \<Longrightarrow> filter active fs = []"
  by (induction fs) (auto dest: finished_cases)

lemma queued_not_active: "filter active (replicate m Queued) = []"
  by (induction m) simp_all

lemma drive_rest:
  assumes "errorMode a = IGNORE" and "0 < concurrency a"
    and "\<forall>i<length imgs. \<exists>b. cleanupImage E (imgs ! i) (int i + 1) = Inr b"
    and "\<forall>pg sm. onPostProcess E pg sm = None"
    and "list_all finished fs" and "length fs + m = length imgs"
  shows "\<exists>evs ts' s'. ocr_run E a imgs evs (fs @ replicate m Queued, s) = Some (Inr (ts', s'))
           \<and> list_all finished ts'"
  using assms(5,6)
proof (induction m arbitrary: fs s)
  case 0
  have "ocr_run E a imgs [] (fs @ replicate 0 Queued, s) = Some (Inr (fs, s))" by simp
  then show ?case using "0.prems"(1) by blast
next
  case (Suc m)
  let ?i = "length fs"
  let ?ts = "fs @ replicate (Suc m) Queued"
  let ?ts1 = "fs @ Admitted # replicate m Queued"
  have i: "?i < length imgs" using Suc.prems(2) by simp
  have admit: "ocr_step E a imgs (Admit ?i) (?ts, s) = Some (Inr (?ts1, s))"
    using assms(2) finished_not_queued [OF Suc.prems(1)] finished_not_active [OF Suc.prems(1)]
    by (simp add: nth_append queued_not_active list_update_append)
  from assms(3) i obtain b where b: "cleanupImage E (imgs ! ?i) (int ?i + 1) = Inr b" by blast
  from processOCR_returns [OF assms(1) b assms(4)]
  obtain pg s1 where p: "processOCR E a (length imgs) (imgs ! ?i) (int ?i + 1) False s = (Inr pg, s1)"
    by blast
  have "?i < length ?ts1" "?ts1 ! ?i = Admitted" by (simp_all add: nth_append)
  from uninterrupted_task [OF this(1) i this(2), of E a s]
  obtain k where k: "ocr_run E a imgs (Request ?i # replicate k (Respond ?i) @ [Write ?i]) (?ts1, s)
      = Some (Inr (?ts1[?i := Finished pg], s1\<lparr>pages := js_assign (pages s1) ?i pg\<rparr>))"
    using p by auto
  have upd: "?ts1[?i := Finished pg] = (fs @ [Finished pg]) @ replicate m Queued"
    by (simp add: list_update_append)
  have fin: "list_all finished (fs @ [Finished pg])" using Suc.prems(1) by simp
  have len: "length (fs @ [Finished pg]) + m = length imgs" using Suc.prems(2) by simp
  from Suc.IH [OF fin len, of "s1\<lparr>pages := js_assign (pages s1) ?i pg\<rparr>"]
  obtain evs ts' s' where rest:
    "ocr_run E a imgs evs
       ((fs @ [Finished pg]) @ replicate m Queued, s1\<lparr>pages := js_assign (pages s1) ?i pg\<rparr>)
       = Some (Inr (ts', s'))" "list_all finished ts'"
    by blast
  let ?evs = "Admit ?i # (Request ?i # replicate k (Respond ?i) @ [Write ?i]) @ evs"
  have "ocr_run E a imgs ?evs (?ts, s) = Some (Inr (ts', s'))"
    using admit k rest(1) unfolding upd
    by (simp only: ocr_run.simps ocr_run_append option.case sum.case)
  then show ?case using rest(2) by blast
qed

text \<open>
  No run gets stuck.  Under IGNORE every task that has been admitted runs to its end by
  itself, whatever the other tasks are doing; the queue is first in, first out, so that
  from any state that a run has reached the tasks in progress can be finished and the
  tasks that wait be admitted one after the other.
\<close>

lemma ocr_outcome_ignore: "\<exists>pg s'. ocr_outcome IGNORE pn r = Inr (pg, s')"
  by (cases r) (auto simp: ocr_outcome_def ocr_failure_def ocr_success_def split: sum.splits)

lemma respond_finish:
  assumes "errorMode a = IGNORE" and "i < length ts" and "ts ! i = Waiting k buffer n args"
  shows "\<exists>m pg sm s'. ocr_run E a imgs (replicate m (Respond i)) (ts, s)
           = Some (Inr (ts[i := Built pg sm], s'))"
proof (cases "getCompletion_OCR E n args")
  case (Inr response)
  have "ocr_run E a imgs (replicate 1 (Respond i)) (ts, s)
          = Some (Inr (ts[i := Built (fst (ocr_success (int i + 1) response s))
                         (progressSummary (length imgs) (snd (ocr_success (int i + 1) response s)))],
                       snd (ocr_success (int i + 1) response s)))"
    using assms(2,3) Inr by (simp split: prod.splits)
  then show ?thesis by blast
next
  case (Inl e)
  show ?thesis
  proof (cases k)
    case 0
    have "ocr_run E a imgs (replicate 1 (Respond i)) (ts, s)
            = Some (Inr (ts[i := Built (error_page (int i + 1) e)
                           (progressSummary (length imgs)
                              (s\<lparr>numFailedOCRRequests := numFailedOCRRequests s + 1\<rparr>))],
                         s\<lparr>numFailedOCRRequests := numFailedOCRRequests s + 1\<rparr>))"
      using assms Inl 0 by (simp add: ocr_failure_def)
    then show ?thesis by blast
  next
    case (Suc k')
    let ?ts = "ts[i := Waiting k' buffer (length (requests s)) (ocr_args buffer False s)]"
    let ?s = "issue (ocr_args buffer False s) s"
    have first: "ocr_step E a imgs (Respond i) (ts, s) = Some (Inr (?ts, ?s))"
      using assms(2,3) Inl Suc by simp
    from ocr_outcome_ignore [of "int i + 1" "runRetries (ocr_call E buffer False) k' s"]
    obtain pg s' where o: "ocr_outcome (errorMode a) (int i + 1)
                             (runRetries (ocr_call E buffer False) k' s) = Inr (pg, s')"
      using assms(1) by auto
    from respond_drive [OF assms(2), of E a imgs k' buffer s] o
    obtain m where "ocr_run E a imgs (replicate m (Respond i)) (?ts, ?s)
        = Some (Inr (ts[i := Built pg (progressSummary (length imgs) s')], s'))"
      by auto
    then have "ocr_run E a imgs (replicate (Suc m) (Respond i)) (ts, s)
        = Some (Inr (ts[i := Built pg (progressSummary (length imgs) s')], s'))"
      using first by simp
    then show ?thesis by blast
  qed
qed

lemma write_finish:
  assumes "\<forall>pg sm. onPostProcess E pg sm = None" and "i < length ts"
  shows "ocr_run E a imgs [Write i] (ts[i := Built pg sm], s)
           = Some (Inr (ts[i := Finished pg], s\<lparr>pages := js_assign (pages s) i pg\<rparr>))"
  using assms by simp

lemma waiting_finish:
  assumes "errorMode a = IGNORE" and "\<forall>pg sm. onPostProcess E pg sm = None"
    and "i < length ts" and "ts ! i = Waiting k buffer n args"
  shows "\<exists>evs pg s'. ocr_run E a imgs evs (ts, s) = Some (Inr (ts[i := Finished pg], s'))"
proof -
  from respond_finish [OF assms(1,3,4), of E imgs s]
  obtain m pg sm s1 where r: "ocr_run E a imgs (replicate m (Respond i)) (ts, s)
      = Some (Inr (ts[i := Built pg sm], s1))"
    by blast
  have "ocr_run E a imgs (replicate m (Respond i) @ [Write i]) (ts, s)
          = Some (Inr (ts[i := Finished pg], s1\<lparr>pages := js_assign (pages s1) i pg\<rparr>))"
    unfolding ocr_run_append r using write_finish [OF assms(2,3)] by simp
  then show ?thesis by blast
qed

lemma task_finish:
  assumes "errorMode a = IGNORE"
    and "\<forall>i<length imgs. \<exists>b. cleanupImage E (imgs ! i) (int i + 1) = Inr b"
    and "\<forall>pg sm. onPostProcess E pg sm = None"
    and "i < length ts" and "length ts = length imgs" and "active (ts ! i)"
  shows "\<exists>evs pg s'. ocr_run E a imgs evs (ts, s) = Some (Inr (ts[i := Finished pg], s'))"
proof (cases "ts ! i")
  case Queued
  then show ?thesis using assms(6) by simp
next
  case Admitted
  from assms(2,4,5) obtain b where b: "cleanupImage E (imgs ! i) (int i + 1) = Inr b" by auto
  let ?ts = "ts[i := Waiting (maxRetries a - 1) b (length (requests s)) (ocr_args b False s)]"
  let ?s = "issue (ocr_args b False s) s"
  have req: "ocr_step E a imgs (Request i) (ts, s) = Some (Inr (?ts, ?s))"
    using assms(4,5) Admitted b by simp
  have "i < length ?ts" "?ts ! i = Waiting (maxRetries a - 1) b (length (requests s)) (ocr_args b False s)"
    using assms(4) by simp_all
  from waiting_finish [OF assms(1,3) this, of imgs ?s]
  obtain evs pg s' where "ocr_run E a imgs evs (?ts, ?s) = Some (Inr (?ts[i := Finished pg], s'))"
    by blast
  then have "ocr_run E a imgs (Request i # evs) (ts, s) = Some (Inr (ts[i := Finished pg], s'))"
    using req by simp
  then show ?thesis by blast
next
  case (Waiting k buffer n args)
  from waiting_finish [OF assms(1,3,4) this] show ?thesis .
next
  case (Built pg sm)
  then have "ts = ts[i := Built pg sm]" by (metis list_update_id)
  then have "ocr_run E a imgs [Write i] (ts, s)
               = Some (Inr (ts[i := Finished pg], s\<lparr>pages := js_assign (pages s) i pg\<rparr>))"
    using write_finish [OF assms(3,4), of a imgs pg sm s] by simp
  then show ?thesis by blast
next
  case (Finished pg)
  then show ?thesis using assms(6) by simp
qed

lemma finish_active:
  assumes "errorMode a = IGNORE"
    and "\<forall>i<length imgs. \<exists>b. cleanupImage E (imgs ! i) (int i + 1) = Inr b"
    and "\<forall>pg sm. onPostProcess E pg sm = None"
    and "length ts = length imgs" and "n \<le> length ts"
  shows "\<exists>evs ts' s'. ocr_run E a imgs evs (ts, s) = Some (Inr (ts', s'))
           \<and> length ts' = length ts
           \<and> (\<forall>j<length ts. if j < n \<and> active (ts ! j) then finished (ts' ! j)
                             else ts' ! j = ts ! j)"
  using assms(5)
proof (induction n)
  case 0
  have "ocr_run E a imgs [] (ts, s) = Some (Inr (ts, s))" by simp
  then show ?case by fastforce
next
  case (Suc n)
  then have n: "n < length ts" by simp
  from Suc.IH obtain evs ts1 s1
    where r1: "ocr_run E a imgs evs (ts, s) = Some (Inr (ts1, s1))"
      and l1: "length ts1 = length ts"
      and p1: "\<forall>j<length ts. if j < n \<and> active (ts ! j) then finished (ts1 ! j)
                               else ts1 ! j = ts ! j"
    using n by auto
  have same: "ts1 ! n = ts ! n" using p1 n by auto
  show ?case
  proof (cases "active (ts ! n)")
    case False
    have "\<forall>j<length ts. if j < Suc n \<and> active (ts ! j) then finished (ts1 ! j)
                           else ts1 ! j = ts ! j"
      using p1 False by (auto simp: less_Suc_eq)
    then show ?thesis using r1 l1 by blast
  next
    case True
    have "n < length ts1" "length ts1 = length imgs" "active (ts1 ! n)"
      using n l1 assms(4) True same by simp_all
    from task_finish [OF assms(1,2,3) this, of s1]
    obtain evs' pg s2 where r2: "ocr_run E a imgs evs' (ts1, s1)
        = Some (Inr (ts1[n := Finished pg], s2))"
      by blast
    have run: "ocr_run E a imgs (evs @ evs') (ts, s) = Some (Inr (ts1[n := Finished pg], s2))"
      unfolding ocr_run_append r1 using r2 by simp
    have "\<forall>j<length ts. if j < Suc n \<and> active (ts ! j)
                           then finished (ts1[n := Finished pg] ! j)
                           else ts1[n := Finished pg] ! j = ts ! j"
    proof (intro allI impI)
      fix j
      assume j: "j < length ts"
      show "if j < Suc n \<and> active (ts ! j) then finished (ts1[n := Finished pg] ! j)
            else ts1[n := Finished pg] ! j = ts ! j"
      proof (cases "j = n")
        case True
        then show ?thesis using \<open>active (ts ! n)\<close> n l1 by simp
      next
        case False
        then show ?thesis using p1 j by (auto simp: less_Suc_eq)
      qed
    qed
    then show ?thesis using run l1 by fastforce
  qed
qed

lemma queued_cases: "queued t \<Longrightarrow> t = Queued"
  by (cases t) simp_all

lemma idle_cases: "\<not> active t \<Longrightarrow> \<not> queued t \<Longrightarrow> finished t"
  by (cases t) simp_all

lemma waiting_from_nth:
  "waiting_from ts q \<Longrightarrow> j < length ts \<Longrightarrow> queued (ts ! j) \<longleftrightarrow> q \<le> j"
  by (simp add: waiting_from_def list_all_iff)

lemma waiting_fromI:
  "q \<le> length ts \<Longrightarrow> (\<And>j. j < length ts \<Longrightarrow> queued (ts ! j) \<longleftrightarrow> q \<le> j) \<Longrightarrow> waiting_from ts q"
  by (simp add: waiting_from_def list_all_iff)

lemma waiting_from_initial: "waiting_from (replicate n Queued) 0"
  by (rule waiting_fromI) simp_all

lemma waiting_from_update:
  assumes "waiting_from ts q" and "i < length ts" and "\<not> queued (ts ! i)" and "\<not> queued t"
  shows "waiting_from (ts[i := t]) q"
proof (rule waiting_fromI)
  show "q \<le> length (ts[i := t])" using assms(1) by (simp add: waiting_from_def)
  fix j
  assume "j < length (ts[i := t])"
  then have j: "j < length ts" by simp
  show "queued (ts[i := t] ! j) \<longleftrightarrow> q \<le> j"
  proof (cases "j = i")
    case True
    then show ?thesis using assms waiting_from_nth [OF assms(1) j] by simp
  next
    case False
    then show ?thesis using waiting_from_nth [OF assms(1) j] by simp
  qed
qed

lemma waiting_from_admit:
  assumes "waiting_from ts q" and "i < length ts" and "ts ! i = Queued"
    and "\<not> list_ex queued (take i ts)"
  shows "waiting_from (ts[i := Admitted]) (Suc q)"
proof -
  have qi: "q \<le> i" using waiting_from_nth [OF assms(1,2)] assms(3) by simp
  have "\<not> q < i"
  proof
    assume lt: "q < i"
    then have "queued (ts ! q)" using waiting_from_nth [OF assms(1), of q] assms(2) by simp
    moreover have "take i ts ! q = ts ! q" using lt by simp
    moreover have "q < length (take i ts)" using lt assms(2) by simp
    then have "take i ts ! q \<in> set (take i ts)" by (rule nth_mem)
    ultimately have "list_ex queued (take i ts)"
      unfolding list_ex_iff by auto
    then show False using assms(4) by simp
  qed
  then have eq: "q = i" using qi by simp
  show ?thesis
  proof (rule waiting_fromI)
    show "Suc q \<le> length (ts[i := Admitted])" using eq assms(2) by simp
    fix j
    assume "j < length (ts[i := Admitted])"
    then have j: "j < length ts" by simp
    show "queued (ts[i := Admitted] ! j) \<longleftrightarrow> Suc q \<le> j"
    proof (cases "j = i")
      case True
      then show ?thesis using eq assms(2) by simp
    next
      case False
      then show ?thesis using waiting_from_nth [OF assms(1) j] eq by auto
    qed
  qed
qed

lemma ocr_step_queue:
  assumes "waiting_from ts q" and "ocr_step E a imgs ev (ts, s) = Some (Inr (ts', s'))"
  shows "\<exists>q'. waiting_from ts' q'"
proof (cases ev)
  case (Admit i)
  then have "i < length ts" "ts ! i = Queued" "\<not> list_ex queued (take i ts)"
      "ts' = ts[i := Admitted]"
    using assms(2) by (auto split: if_splits)
  then show ?thesis using waiting_from_admit [OF assms(1)] by blast
next
  case (Request i)
  then obtain t where "i < length ts" "ts ! i = Admitted" "ts' = ts[i := t]" "\<not> queued t"
    using assms(2) by (auto split: if_splits sum.splits)
  then show ?thesis using waiting_from_update [OF assms(1), of i t] by auto
next
  case (Respond i)
  then have i: "i < length ts" and r: "respond E a (length imgs) i (ts ! i) (ts, s) = Some (Inr (ts', s'))"
    using assms(2) by (auto split: if_splits)
  then obtain k buffer n args where w: "ts ! i = Waiting k buffer n args"
    by (cases "ts ! i") simp_all
  then obtain t where "ts' = ts[i := t]" "\<not> queued t"
    using r by (auto split: sum.splits nat.splits prod.splits)
  then show ?thesis using waiting_from_update [OF assms(1) i, of t] w by auto
next
  case (Write i)
  then obtain t where "i < length ts" "\<not> queued (ts ! i)" "ts' = ts[i := t]" "\<not> queued t"
    using assms(2) by (auto split: if_splits task.splits option.splits)
  then show ?thesis using waiting_from_update [OF assms(1), of i t] by auto
qed

lemma ocr_run_queue:
  "waiting_from ts q \<Longrightarrow> ocr_run E a imgs evs (ts, s) = Some (Inr (ts', s'))
     \<Longrightarrow> \<exists>q'. waiting_from ts' q'"
proof (induction evs arbitrary: ts s q)
  case Nil
  then show ?case by auto
next
  case (Cons ev evs)
  from Cons.prems(2) obtain ts1 s1
    where 1: "ocr_step E a imgs ev (ts, s) = Some (Inr (ts1, s1))"
      and 2: "ocr_run E a imgs evs (ts1, s1) = Some (Inr (ts', s'))"
    by (auto split: option.splits sum.splits)
  from ocr_step_queue [OF Cons.prems(1) 1] obtain q1 where "waiting_from ts1 q1" by blast
  from Cons.IH [OF this 2] show ?case .
qed

lemma ocr_run_length:
  "ocr_run E a imgs evs (ts, s) = Some (Inr (ts', s')) \<Longrightarrow> length ts' = length ts"
proof (induction evs arbitrary: ts s)
  case Nil
  then show ?case by simp
next
  case (Cons ev evs)
  from Cons.prems obtain ts1 s1
    where 1: "ocr_step E a imgs ev (ts, s) = Some (Inr (ts1, s1))"
      and 2: "ocr_run E a imgs evs (ts1, s1) = Some (Inr (ts', s'))"
    by (auto split: option.splits sum.splits)
  have "length ts1 = length ts"
  proof (cases ev)
    case (Respond i)
    then have "respond E a (length imgs) i (ts ! i) (ts, s) = Some (Inr (ts1, s1))"
      using 1 by (auto split: if_splits)
    then show ?thesis
      by (cases "ts ! i") (auto split: sum.splits nat.splits prod.splits)
  qed (use 1 in \<open>auto split: if_splits sum.splits task.splits option.splits\<close>)
  then show ?case using Cons.IH [OF 2] by simp
qed

lemma complete_from:
  assumes "errorMode a = IGNORE" and "0 < concurrency a"
    and "\<forall>i<length imgs. \<exists>b. cleanupImage E (imgs ! i) (int i + 1) = Inr b"
    and "\<forall>pg sm. onPostProcess E pg sm = None"
    and "length ts = length imgs" and "waiting_from ts q"
  shows "\<exists>evs ts' s'. ocr_run E a imgs evs (ts, s) = Some (Inr (ts', s')) \<and> list_all finished ts'"
proof -
  from finish_active [OF assms(1,3,4,5) le_refl, of s]
  obtain evs ts1 s1
    where r1: "ocr_run E a imgs evs (ts, s) = Some (Inr (ts1, s1))"
      and l1: "length ts1 = length ts"
      and p1: "\<forall>j<length ts. if j < length ts \<and> active (ts ! j) then finished (ts1 ! j)
                               else ts1 ! j = ts ! j"
    by blast
  have q: "q \<le> length ts" using assms(6) by (simp add: waiting_from_def)
  have low: "finished (ts1 ! j)" if "j < q" for j
  proof -
    have j: "j < length ts" using that q by simp
    have nq: "\<not> queued (ts ! j)" using waiting_from_nth [OF assms(6) j] that by simp
    show ?thesis
    proof (cases "active (ts ! j)")
      case True
      then show ?thesis using p1 j by auto
    next
      case False
      then have "ts1 ! j = ts ! j" using p1 j by auto
      then show ?thesis using idle_cases [OF False nq] by simp
    qed
  qed
  have high: "ts1 ! j = Queued" if "q \<le> j" "j < length ts" for j
  proof -
    have "queued (ts ! j)" using waiting_from_nth [OF assms(6) that(2)] that(1) by simp
    then have "ts ! j = Queued" by (rule queued_cases)
    then show ?thesis using p1 that(2) by auto
  qed
  have fin: "list_all finished (take q ts1)"
    unfolding list_all_length using low l1 q by simp
  have rest: "drop q ts1 = replicate (length imgs - q) Queued"
    using high l1 assms(5) by (intro nth_equalityI) simp_all
  have split: "ts1 = take q ts1 @ replicate (length imgs - q) Queued"
    using append_take_drop_id [of q ts1] rest by simp
  have len: "length (take q ts1) + (length imgs - q) = length imgs"
    using l1 q assms(5) by simp
  from drive_rest [OF assms(1,2,3,4) fin len, of s1]
  obtain evs' ts' s' where r2: "ocr_run E a imgs evs'
      (take q ts1 @ replicate (length imgs - q) Queued, s1) = Some (Inr (ts', s'))"
      "list_all finished ts'"
    by blast
  have "ocr_run E a imgs (evs @ evs') (ts, s) = Some (Inr (ts', s'))"
    unfolding ocr_run_append r1 using r2(1) split by simp
  then show ?thesis using r2(2) by blast
qed

lemma run_can_complete:
  assumes "errorMode a = IGNORE" and "0 < concurrency a"
    and "\<forall>i<length imgs. \<exists>b. cleanupImage E (imgs ! i) (int i + 1) = Inr b"
    and "\<forall>pg sm. onPostProcess E pg sm = None"
    and "ocr_run E a imgs evs (replicate (length imgs) Queued, s) = Some (Inr (ts, st))"
  shows "\<exists>rest sn. ocr_concurrent E a imgs (evs @ rest) s = Some (Inr sn)"
proof -
  from ocr_run_queue [OF waiting_from_initial assms(5)] obtain q where q: "waiting_from ts q"
    by blast
  have l: "length ts = length imgs" using ocr_run_length [OF assms(5)] by simp
  from complete_from [OF assms(1,2,3,4) l q, of st]
  obtain rest ts' sn where "ocr_run E a imgs rest (ts, st) = Some (Inr (ts', sn))"
      "list_all finished ts'"
    by blast
  then have "ocr_concurrent E a imgs (evs @ rest) s = Some (Inr sn)"
    using assms(2,5) by (simp add: ocr_concurrent_def ocr_run_append)
  then show ?thesis by blast
qed

lemma complete_run_exists:
  assumes "errorMode a = IGNORE" and "0 < concurrency a"
    and "\<forall>i<length imgs. \<exists>b. cleanupImage E (imgs ! i) (int i + 1) = Inr b"
    and "\<forall>pg sm. onPostProcess E pg sm = None"
  shows "\<exists>evs s'. ocr_concurrent E a imgs evs s = Some (Inr s')"
proof -
  have "ocr_run E a imgs [] (replicate (length imgs) Queued, s)
          = Some (Inr (replicate (length imgs) Queued, s))"
    by simp
  from run_can_complete [OF assms this] show ?thesis by auto
qed

lemma produced_for_ignore:
  assumes "produced_for E a imgs s i pg" and "errorMode a = IGNORE"
  shows "status pg = SUCCESS \<or> (\<exists>e. pg = error_page (int i + 1) e)"
proof -
  from assms(1) obtain buffer n where "answers E a s buffer i pg n"
    unfolding produced_for_iff by blast
  then have o: "page_of_outcome (errorMode a) (int i + 1) (getCompletion_OCR E n (requests s ! n))
                  = Some pg"
    by (simp add: answers_def)
  show ?thesis
  proof (cases "getCompletion_OCR E n (requests s ! n)")
    case (Inl e)
    then have "pg = error_page (int i + 1) e"
      using o assms(2) by (simp add: page_of_outcome_def)
    then show ?thesis by blast
  next
    case (Inr response)
    then have "pg = success_page (int i + 1) response"
      using o by (simp add: page_of_outcome_def)
    then show ?thesis by (simp add: success_page_def)
  qed
qed

lemma ignore_no_throw:
  assumes "errorMode a = IGNORE" and "0 < concurrency a"
    and "\<forall>i<length imgs. \<exists>b. cleanupImage E (imgs ! i) (int i + 1) = Inr b"
    and "\<forall>pg sm. onPostProcess E pg sm = None"
  shows "ocr_concurrent E a imgs evs s \<noteq> Some (Inl e)"
  using ocr_run_no_error [OF assms(1,3,4), of evs "(replicate (length imgs) Queued, s)" e] assms(2)
  by (auto simp: ocr_concurrent_def split: option.splits sum.splits if_splits)

lemma complete_run_pages:
  assumes "errorMode a = IGNORE" and "ocr_concurrent E a imgs evs s0 = Some (Inr s)"
    and "pages s0 = []"
  shows "length (pages s) = length imgs
       \<and> (\<forall>i<length imgs. \<exists>pg.
             pages s ! i = Some pg \<and> produced_for E a imgs s i pg
           \<and> (status pg = SUCCESS \<or> (\<exists>err. pg = error_page (int i + 1) err)))"
proof -
  from ocr_concurrent_tasks [OF assms(2)] obtain ts
    where run: "ocr_run E a imgs evs (replicate (length imgs) Queued, s0) = Some (Inr (ts, s))"
      and fin: "list_all finished ts"
    by blast
  have ok: "tasks_ok E a imgs (ts, s)"
    using ocr_run_inv [OF tasks_ok_initial [OF assms(3)] run] .
  from all_finished_pages [OF ok fin]
  have len: "length (pages s) = length imgs"
    and each: "\<forall>i<length imgs. \<exists>pg. pages s ! i = Some pg \<and> produced_for E a imgs s i pg"
    by simp_all
  have "\<exists>pg. pages s ! i = Some pg \<and> produced_for E a imgs s i pg
          \<and> (status pg = SUCCESS \<or> (\<exists>err. pg = error_page (int i + 1) err))"
    if "i < length imgs" for i
  proof -
    from each that obtain pg where pg: "pages s ! i = Some pg" "produced_for E a imgs s i pg"
      by blast
    from produced_for_ignore [OF pg(2) assms(1)] pg show ?thesis by blast
  qed
  then show ?thesis using len by blast
qed

text \<open>
  C4, as amended.  When the retries of a page are exhausted: under THROW the error
  leaves \<^verbatim>\<open>processOCR\<close> and ends the scheduling operation (the sequential loop, or the
  concurrent run whatever its other tasks would do); under IGNORE an ERROR page is built,
  with empty content, content length 0 and a non-empty error text, and handed to the
  post-processing hook: \<^verbatim>\<open>processOCR\<close> returns the page, unless the hook throws, whose
  error propagates.  In format-continuity mode the loop ends behind that page.  In
  bounded-concurrency mode the task holds the page and the run goes on: under IGNORE, with
  a limit of at least 1, when no step before the request and no hook throws, no run
  throws, every run can be carried on from the state it has reached to a run that
  completes, whatever pages have failed, and every run that completes holds a page for
  every image, which is a SUCCESS page or the ERROR page of that image.
\<close>

theorem retries_exhausted:
  "(cleanupImage E imagePath (int i + 1) = Inr buffer
      \<and> runRetries (ocr_call E buffer mf) (maxRetries a - 1) s = (Inl e, s')
    \<longrightarrow> (errorMode a = THROW \<longrightarrow>
            processOCR E a n imagePath (int i + 1) mf s = (Inl e, s')
          \<and> (mf \<longrightarrow> ocr_sequential E a n (imagePath # rest) i s = (Some e, s')))
      \<and> (errorMode a = IGNORE \<longrightarrow>
            status (error_page (int i + 1) e) = ERROR
          \<and> content (error_page (int i + 1) e) = []
          \<and> contentLength (error_page (int i + 1) e) = 0
          \<and> (\<exists>t. error (error_page (int i + 1) e) = Some t \<and> t \<noteq> [])
          \<and> processOCR E a n imagePath (int i + 1) mf s
              = (case onPostProcess E (error_page (int i + 1) e)
                        (progressSummary n
                           (s'\<lparr>numFailedOCRRequests := numFailedOCRRequests s' + 1\<rparr>)) of
                   Some e' \<Rightarrow>
                     (Inl e', s'\<lparr>numFailedOCRRequests := numFailedOCRRequests s' + 1\<rparr>)
                 | None \<Rightarrow>
                     (Inr (error_page (int i + 1) e),
                      s'\<lparr>numFailedOCRRequests := numFailedOCRRequests s' + 1\<rparr>))
          \<and> (mf \<longrightarrow>
                ocr_sequential E a n (imagePath # rest) i s
                  = (case onPostProcess E (error_page (int i + 1) e)
                            (progressSummary n
                               (s'\<lparr>numFailedOCRRequests := numFailedOCRRequests s' + 1\<rparr>)) of
                       Some e' \<Rightarrow>
                         (Some e', s'\<lparr>numFailedOCRRequests := numFailedOCRRequests s' + 1\<rparr>)
                     | None \<Rightarrow>
                         (None, s'\<lparr>numFailedOCRRequests := numFailedOCRRequests s' + 1,
                                  pages := pages s' @ [Some (error_page (int i + 1) e)]\<rparr>)))))
   \<and> (j < length ts \<and> ts ! j = Waiting 0 buffer k args \<and> getCompletion_OCR E k args = Inl e
    \<longrightarrow> (errorMode a = THROW \<longrightarrow>
            ocr_run E a imagePaths (Respond j # evs) (ts, st) = Some (Inl e))
      \<and> (errorMode a = IGNORE \<longrightarrow>
            ocr_run E a imagePaths (Respond j # evs) (ts, st)
              = ocr_run E a imagePaths evs
                  (ts[j := Built (error_page (int j + 1) e)
                      (progressSummary (length imagePaths)
                         (st\<lparr>numFailedOCRRequests := numFailedOCRRequests st + 1\<rparr>))],
                   st\<lparr>numFailedOCRRequests := numFailedOCRRequests st + 1\<rparr>)))
   \<and> (errorMode a = IGNORE \<and> \<not> maintainFormat a \<and> \<not> extractOnly a \<and> 0 < concurrency a
      \<and> (\<forall>i<length imagePaths. \<exists>b. cleanupImage E (imagePaths ! i) (int i + 1) = Inr b)
      \<and> (\<forall>pg sm. onPostProcess E pg sm = None) \<and> pages s0 = []
    \<longrightarrow> (\<forall>sched err. ocr_phase E sched a imagePaths s0 \<noteq> Some (Inl err))
      \<and> (\<exists>sched sn. ocr_phase E sched a imagePaths s0 = Some (Inr sn))
      \<and> (\<forall>sched tasks sm.
            ocr_run E a imagePaths sched (replicate (length imagePaths) Queued, s0)
              = Some (Inr (tasks, sm))
            \<longrightarrow> (\<exists>more sn. ocr_phase E (sched @ more) a imagePaths s0 = Some (Inr sn)))
      \<and> (\<forall>sched sn. ocr_phase E sched a imagePaths s0 = Some (Inr sn) \<longrightarrow>
            length (pages sn) = length imagePaths
          \<and> (\<forall>i<length imagePaths. \<exists>pg.
                pages sn ! i = Some pg \<and> produced_for E a imagePaths sn i pg
              \<and> (status pg = SUCCESS \<or> (\<exists>err. pg = error_page (int i + 1) err)))))"
proof (intro conjI impI; (elim conjE)?)
  assume c: "cleanupImage E imagePath (int i + 1) = Inr buffer"
    and r: "runRetries (ocr_call E buffer mf) (maxRetries a - 1) s = (Inl e, s')"
  {
    assume t: "errorMode a = THROW"
    show p: "processOCR E a n imagePath (int i + 1) mf s = (Inl e, s')"
      using processOCR_throw [OF c r t] .
    assume mf
    then show "ocr_sequential E a n (imagePath # rest) i s = (Some e, s')"
      using p by simp
  }
  {
    assume g: "errorMode a = IGNORE"
    show "status (error_page (int i + 1) e) = ERROR" "content (error_page (int i + 1) e) = []"
      "contentLength (error_page (int i + 1) e) = 0"
      "\<exists>t. error (error_page (int i + 1) e) = Some t \<and> t \<noteq> []"
      by (simp_all add: error_page_fields)
    let ?s = "s'\<lparr>numFailedOCRRequests := numFailedOCRRequests s' + 1\<rparr>"
    let ?h = "onPostProcess E (error_page (int i + 1) e) (progressSummary n ?s)"
    show p: "processOCR E a n imagePath (int i + 1) mf s
               = (case ?h of
                    Some e' \<Rightarrow> (Inl e', ?s)
                  | None \<Rightarrow> (Inr (error_page (int i + 1) e), ?s))"
      using processOCR_exhausted [OF c r g] .
    assume mf
    then show "ocr_sequential E a n (imagePath # rest) i s
                 = (case ?h of
                      Some e' \<Rightarrow> (Some e', ?s)
                    | None \<Rightarrow>
                        (None, s'\<lparr>numFailedOCRRequests := numFailedOCRRequests s' + 1,
                                 pages := pages s' @ [Some (error_page (int i + 1) e)]\<rparr>))"
      using p by (cases ?h) (simp_all add: error_page_fields)
  }
next
  assume j: "j < length ts" and w: "ts ! j = Waiting 0 buffer k args"
    and f: "getCompletion_OCR E k args = Inl e"
  {
    assume t: "errorMode a = THROW"
    show "ocr_run E a imagePaths (Respond j # evs) (ts, st) = Some (Inl e)"
      using respond_throw [OF j w f t] by simp
  }
  {
    assume g: "errorMode a = IGNORE"
    show "ocr_run E a imagePaths (Respond j # evs) (ts, st)
              = ocr_run E a imagePaths evs
                  (ts[j := Built (error_page (int j + 1) e)
                      (progressSummary (length imagePaths)
                         (st\<lparr>numFailedOCRRequests := numFailedOCRRequests st + 1\<rparr>))],
                   st\<lparr>numFailedOCRRequests := numFailedOCRRequests st + 1\<rparr>)"
      using respond_ignore [OF j w f g] by simp
  }
next
  assume g: "errorMode a = IGNORE" and m: "\<not> maintainFormat a" "\<not> extractOnly a"
    and c: "0 < concurrency a"
    and pre: "\<forall>i<length imagePaths. \<exists>b. cleanupImage E (imagePaths ! i) (int i + 1) = Inr b"
    and hook: "\<forall>pg sm. onPostProcess E pg sm = None" and p0: "pages s0 = []"
  have ph: "ocr_phase E sched a imagePaths s0 = ocr_concurrent E a imagePaths sched s0" for sched
    using m by (simp add: ocr_phase_def)
  show "\<forall>sched err. ocr_phase E sched a imagePaths s0 \<noteq> Some (Inl err)"
    unfolding ph using ignore_no_throw [OF g c pre hook] by blast
  show "\<exists>sched sn. ocr_phase E sched a imagePaths s0 = Some (Inr sn)"
    unfolding ph using complete_run_exists [OF g c pre hook] .
  show "\<forall>sched tasks sm.
            ocr_run E a imagePaths sched (replicate (length imagePaths) Queued, s0)
              = Some (Inr (tasks, sm))
            \<longrightarrow> (\<exists>more sn. ocr_phase E (sched @ more) a imagePaths s0 = Some (Inr sn))"
    unfolding ph using run_can_complete [OF g c pre hook] by blast
  show "\<forall>sched sn. ocr_phase E sched a imagePaths s0 = Some (Inr sn) \<longrightarrow>
            length (pages sn) = length imagePaths
          \<and> (\<forall>i<length imagePaths. \<exists>pg.
                pages sn ! i = Some pg \<and> produced_for E a imagePaths sn i pg
              \<and> (status pg = SUCCESS \<or> (\<exists>err. pg = error_page (int i + 1) err)))"
    unfolding ph using complete_run_pages [OF g _ p0] by blast
qed

theorem retries_exhausted_witness:
  "cleanupImage (sample_env [''a'', ''bad'', ''c'']) ''bad'' (int 1 + 1) = Inr ''bad''
   \<and> runRetries (ocr_call (sample_env [''a'', ''bad'', ''c'']) ''bad'' True)
        (maxRetries continuity_args - 1) after_first = (Inl boom, requested_bad)
   \<and> errorMode continuity_args = IGNORE
   \<and> status (error_page (int 1 + 1) boom) = ERROR
   \<and> content (error_page (int 1 + 1) boom) = []
   \<and> contentLength (error_page (int 1 + 1) boom) = 0
   \<and> error (error_page (int 1 + 1) boom) = Some ''Failed to process page 2: boom''
   \<and> processOCR (sample_env [''a'', ''bad'', ''c'']) continuity_args 3 ''bad'' (int 1 + 1) True
        after_first
       = (Inr (error_page (int 1 + 1) boom),
          requested_bad\<lparr>numFailedOCRRequests := numFailedOCRRequests requested_bad + 1\<rparr>)
   \<and> ocr_sequential (sample_env [''a'', ''bad'', ''c'']) continuity_args 3 (''bad'' # [''c'']) 1
        after_first
       = (None, requested_bad\<lparr>numFailedOCRRequests := numFailedOCRRequests requested_bad + 1,
                  pages := pages requested_bad @ [Some (error_page (int 1 + 1) boom)]\<rparr>)
   \<and> processOCR strict_env continuity_args 3 ''bad'' (int 1 + 1) True after_first
       = (Inl (ExternalError ''hook''),
          requested_bad\<lparr>numFailedOCRRequests := numFailedOCRRequests requested_bad + 1\<rparr>)
   \<and> 0 < length waiting_bad
   \<and> waiting_bad ! 0 = Waiting 0 ''bad'' 0 bad_request
   \<and> getCompletion_OCR (sample_env [''a'', ''bad'', ''c'']) 0 bad_request = Inl boom
   \<and> ocr_run (sample_env [''a'', ''bad'', ''c'']) continuity_args [''bad''] (Respond 0 # [Write 0])
        (waiting_bad, initial_state)
       = ocr_run (sample_env [''a'', ''bad'', ''c'']) continuity_args [''bad''] [Write 0]
           (waiting_bad[0 := Built (error_page (int 0 + 1) boom)
              (progressSummary (length [''bad''])
                 (initial_state\<lparr>numFailedOCRRequests :=
                    numFailedOCRRequests initial_state + 1\<rparr>))],
            initial_state\<lparr>numFailedOCRRequests := numFailedOCRRequests initial_state + 1\<rparr>)
   \<and> errorMode throw_args = THROW
   \<and> runRetries (ocr_call (sample_env [''a'', ''bad'', ''c'']) ''bad'' True)
        (maxRetries throw_args - 1) after_first = (Inl boom, requested_bad)
   \<and> processOCR (sample_env [''a'', ''bad'', ''c'']) throw_args 3 ''bad'' (int 1 + 1) True
        after_first = (Inl boom, requested_bad)
   \<and> ocr_sequential (sample_env [''a'', ''bad'', ''c'']) throw_args 3 (''bad'' # [''c'']) 1
        after_first = (Some boom, requested_bad)
   \<and> ocr_run (sample_env [''a'', ''bad'', ''c'']) throw_args [''bad''] (Respond 0 # [Write 0])
        (waiting_bad, initial_state) = Some (Inl boom)
   \<and> errorMode one_at_a_time = IGNORE \<and> \<not> maintainFormat one_at_a_time
   \<and> \<not> extractOnly one_at_a_time \<and> 0 < concurrency one_at_a_time
   \<and> (\<forall>imagePath pn. cleanupImage (sample_env [''a'', ''bad'', ''c'']) imagePath pn = Inr imagePath)
   \<and> (\<forall>pg sm. onPostProcess (sample_env [''a'', ''bad'', ''c'']) pg sm = None)
   \<and> pages initial_state = []
   \<and> ocr_phase (sample_env [''a'', ''bad'', ''c'']) (one_by_one 3) one_at_a_time
        [''a'', ''bad'', ''c''] initial_state = Some (Inr ignored_state)
   \<and> ocr_phase (sample_env [''a'', ''bad'', ''c'']) out_of_order one_at_a_time
        [''a'', ''bad'', ''c''] initial_state \<noteq> Some (Inl boom)
   \<and> (\<exists>sched sn. ocr_phase (sample_env [''a'', ''bad'', ''c'']) sched one_at_a_time
         [''a'', ''bad'', ''c''] initial_state = Some (Inr sn))
   \<and> ocr_run (sample_env [''a'', ''bad'', ''c'']) one_at_a_time [''a'', ''bad'', ''c'']
        until_failure (replicate (length [''a'', ''bad'', ''c'']) Queued, initial_state)
       = Some (Inr (failure_tasks, failure_state))
   \<and> (\<exists>more sn. ocr_phase (sample_env [''a'', ''bad'', ''c'']) (until_failure @ more)
         one_at_a_time [''a'', ''bad'', ''c''] initial_state = Some (Inr sn))
   \<and> length (pages ignored_state) = length [''a'', ''bad'', ''c'']
   \<and> statuses_of (pages ignored_state) = [Some SUCCESS, Some ERROR, Some SUCCESS]
   \<and> (\<exists>pg. pages ignored_state ! 1 = Some pg
         \<and> produced_for (sample_env [''a'', ''bad'', ''c'']) one_at_a_time [''a'', ''bad'', ''c'']
             ignored_state 1 pg
         \<and> (status pg = SUCCESS \<or> (\<exists>err. pg = error_page (int 1 + 1) err)))"
proof -
  let ?E = "sample_env [''a'', ''bad'', ''c'']"
  let ?imgs = "[''a'', ''bad'', ''c'']"
  have c: "cleanupImage ?E ''bad'' (int 1 + 1) = Inr ''bad''"
    by code_simp
  have c': "cleanupImage strict_env ''bad'' (int 1 + 1) = Inr ''bad''"
    by code_simp
  have r: "runRetries (ocr_call ?E ''bad'' True)
        (maxRetries continuity_args - 1) after_first = (Inl boom, requested_bad)"
    by code_simp
  have rs: "runRetries (ocr_call strict_env ''bad'' True)
        (maxRetries continuity_args - 1) after_first = (Inl boom, requested_bad)"
    by code_simp
  have g: "errorMode continuity_args = IGNORE" by code_simp
  have h: "onPostProcess ?E (error_page (int 1 + 1) boom)
        (progressSummary 3
           (requested_bad\<lparr>numFailedOCRRequests := numFailedOCRRequests requested_bad + 1\<rparr>))
        = None"
    by (simp add: sample_env_def sample_hook_def)
  have hs: "onPostProcess strict_env (error_page (int 1 + 1) boom)
        (progressSummary 3
           (requested_bad\<lparr>numFailedOCRRequests := numFailedOCRRequests requested_bad + 1\<rparr>))
        = Some (ExternalError ''hook'')"
    by (simp add: strict_env_def strict_hook_def error_page_fields)
  have t: "error (error_page (int 1 + 1) boom) = Some ''Failed to process page 2: boom''"
    by code_simp
  have j: "0 < length waiting_bad" by (simp add: waiting_bad_def)
  have w: "waiting_bad ! 0 = Waiting 0 ''bad'' 0 bad_request" by (simp add: waiting_bad_def)
  have f: "getCompletion_OCR ?E 0 bad_request = Inl boom"
    by code_simp
  have g': "errorMode throw_args = THROW" by code_simp
  have r': "runRetries (ocr_call ?E ''bad'' True)
        (maxRetries throw_args - 1) after_first = (Inl boom, requested_bad)"
    by code_simp
  have m: "errorMode one_at_a_time = IGNORE" "\<not> maintainFormat one_at_a_time"
    "\<not> extractOnly one_at_a_time" "0 < concurrency one_at_a_time"
    by (simp_all add: one_at_a_time_def sample_args_def)
  have pre: "\<forall>imagePath pn. cleanupImage ?E imagePath pn = Inr imagePath"
    by (simp add: sample_env_def sample_keep_def)
  then have pre': "\<forall>i<length ?imgs. \<exists>b. cleanupImage ?E (?imgs ! i) (int i + 1) = Inr b"
    by blast
  have hook: "\<forall>pg sm. onPostProcess ?E pg sm = None"
    by (simp add: sample_env_def sample_hook_def)
  have p0: "pages initial_state = []" by (simp add: initial_state_def)
  have run: "ocr_phase ?E (one_by_one 3) one_at_a_time ?imgs initial_state = Some (Inr ignored_state)"
    by code_simp
  have st: "statuses_of (pages ignored_state) = [Some SUCCESS, Some ERROR, Some SUCCESS]"
    by code_simp
  have i1: "(1::nat) < length ?imgs" by simp
  note ignore = retries_exhausted [where E = ?E
      and imagePath = "''bad''" and i = 1 and buffer = "''bad''" and mf = True
      and a = continuity_args and s = after_first and e = boom and s' = requested_bad
      and n = 3 and rest = "[''c'']" and j = 0 and ts = waiting_bad and k = 0
      and args = bad_request and imagePaths = "[''bad'']" and evs = "[Write 0]"
      and st = initial_state and ?s0.0 = initial_state]
  note strict = retries_exhausted [where E = strict_env
      and imagePath = "''bad''" and i = 1 and buffer = "''bad''" and mf = True
      and a = continuity_args and s = after_first and e = boom and s' = requested_bad
      and n = 3 and rest = "[''c'']" and j = 0 and ts = waiting_bad and k = 0
      and args = bad_request and imagePaths = "[''bad'']" and evs = "[Write 0]"
      and st = initial_state and ?s0.0 = initial_state]
  note throw = retries_exhausted [where E = ?E
      and imagePath = "''bad''" and i = 1 and buffer = "''bad''" and mf = True
      and a = throw_args and s = after_first and e = boom and s' = requested_bad
      and n = 3 and rest = "[''c'']" and j = 0 and ts = waiting_bad and k = 0
      and args = bad_request and imagePaths = "[''bad'']" and evs = "[Write 0]"
      and st = initial_state and ?s0.0 = initial_state]
  note runs = retries_exhausted [where E = ?E
      and imagePath = "''bad''" and i = 1 and buffer = "''bad''" and mf = True
      and a = one_at_a_time and s = after_first and e = boom and s' = requested_bad
      and n = 3 and rest = "[''c'']" and j = 0 and ts = waiting_bad and k = 0
      and args = bad_request and imagePaths = ?imgs and evs = "[Write 0]"
      and st = initial_state and ?s0.0 = initial_state]
  have a1: "processOCR ?E continuity_args 3 ''bad'' (int 1 + 1) True after_first
       = (Inr (error_page (int 1 + 1) boom),
          requested_bad\<lparr>numFailedOCRRequests := numFailedOCRRequests requested_bad + 1\<rparr>)"
    "ocr_sequential ?E continuity_args 3 (''bad'' # [''c'']) 1 after_first
       = (None, requested_bad\<lparr>numFailedOCRRequests := numFailedOCRRequests requested_bad + 1,
                  pages := pages requested_bad @ [Some (error_page (int 1 + 1) boom)]\<rparr>)"
    using ignore c r g h by simp_all
  have a2: "processOCR strict_env continuity_args 3 ''bad'' (int 1 + 1) True after_first
       = (Inl (ExternalError ''hook''),
          requested_bad\<lparr>numFailedOCRRequests := numFailedOCRRequests requested_bad + 1\<rparr>)"
    using strict c' rs g hs by simp
  have b1: "ocr_run ?E continuity_args [''bad''] (Respond 0 # [Write 0]) (waiting_bad, initial_state)
       = ocr_run ?E continuity_args [''bad''] [Write 0]
           (waiting_bad[0 := Built (error_page (int 0 + 1) boom)
              (progressSummary (length [''bad''])
                 (initial_state\<lparr>numFailedOCRRequests :=
                    numFailedOCRRequests initial_state + 1\<rparr>))],
            initial_state\<lparr>numFailedOCRRequests := numFailedOCRRequests initial_state + 1\<rparr>)"
    using ignore j w f g by blast
  have t1: "processOCR ?E throw_args 3 ''bad'' (int 1 + 1) True after_first = (Inl boom, requested_bad)"
    "ocr_sequential ?E throw_args 3 (''bad'' # [''c'']) 1 after_first = (Some boom, requested_bad)"
    "ocr_run ?E throw_args [''bad''] (Respond 0 # [Write 0]) (waiting_bad, initial_state)
       = Some (Inl boom)"
    using throw c r' g' j w f by blast+
  have part: "ocr_run ?E one_at_a_time ?imgs until_failure
                (replicate (length ?imgs) Queued, initial_state)
              = Some (Inr (failure_tasks, failure_state))"
    by code_simp
  from runs m pre' hook p0
  have c1: "\<forall>sched err. ocr_phase ?E sched one_at_a_time ?imgs initial_state \<noteq> Some (Inl err)"
    and c2: "\<exists>sched sn. ocr_phase ?E sched one_at_a_time ?imgs initial_state = Some (Inr sn)"
    and c8: "\<forall>sched tasks sm.
            ocr_run ?E one_at_a_time ?imgs sched (replicate (length ?imgs) Queued, initial_state)
              = Some (Inr (tasks, sm))
            \<longrightarrow> (\<exists>more sn. ocr_phase ?E (sched @ more) one_at_a_time ?imgs initial_state
                    = Some (Inr sn))"
    and c3: "\<forall>sched sn. ocr_phase ?E sched one_at_a_time ?imgs initial_state = Some (Inr sn) \<longrightarrow>
            length (pages sn) = length ?imgs
          \<and> (\<forall>i<length ?imgs. \<exists>pg.
                pages sn ! i = Some pg \<and> produced_for ?E one_at_a_time ?imgs sn i pg
              \<and> (status pg = SUCCESS \<or> (\<exists>err. pg = error_page (int i + 1) err)))"
    by blast+
  from c3 run have c4: "length (pages ignored_state) = length ?imgs"
    and c5: "\<forall>i<length ?imgs. \<exists>pg.
                pages ignored_state ! i = Some pg
              \<and> produced_for ?E one_at_a_time ?imgs ignored_state i pg
              \<and> (status pg = SUCCESS \<or> (\<exists>err. pg = error_page (int i + 1) err))"
    by blast+
  have c6: "\<exists>pg. pages ignored_state ! 1 = Some pg
         \<and> produced_for ?E one_at_a_time ?imgs ignored_state 1 pg
         \<and> (status pg = SUCCESS \<or> (\<exists>err. pg = error_page (int 1 + 1) err))"
    using c5 [rule_format, OF i1] by simp
  have c7: "ocr_phase ?E out_of_order one_at_a_time ?imgs initial_state \<noteq> Some (Inl boom)"
    using c1 by blast
  have c9: "\<exists>more sn. ocr_phase ?E (until_failure @ more) one_at_a_time ?imgs initial_state
              = Some (Inr sn)"
    using c8 part by blast
  show ?thesis
    using c r g t a1 a2 j w f b1 g' r' t1 m pre hook p0 run c7 c2 part c9 c4 st c6
    by (intro conjI) (simp_all only: simp_thms error_page_fields ErrorMode.distinct)
qed

theorem ignored_error_stops_counterexample:
  "errorMode continuity_args = IGNORE \<and> maintainFormat continuity_args
   \<and> statuses_of (result_pages (zerox (sample_env [''a'', ''bad'', ''c'']) (sample_schedule 3)
        continuity_args)) = [Some SUCCESS, Some ERROR]
   \<and> map c_image (requests (snd (ocr_sequential (sample_env [''a'', ''bad'', ''c''])
        continuity_args 3 [''a'', ''bad'', ''c''] 0 initial_state))) = [''a'', ''bad'']
   \<and> errorMode one_at_a_time = IGNORE \<and> \<not> maintainFormat one_at_a_time
   \<and> result_error (zerox strict_env (sample_schedule 3) one_at_a_time)
       = Some (ExternalError ''hook'')"
  by code_simp

section \<open>The prior-page context of a request\<close>

lemma case_Inr_iff: "(case x of Inl e \<Rightarrow> False | Inr r \<Rightarrow> P r) \<longleftrightarrow> (\<exists>r. x = Inr r \<and> P r)"
  by (cases x) simp_all

lemma earlier_content_iff:
  "earlier_content E rs n prior \<longleftrightarrow>
     (\<exists>m<n. \<exists>response. getCompletion_OCR E m (rs ! m) = Inr response
        \<and> prior = r_content response)"
  unfolding earlier_content_def list_ex_iff case_Inr_iff by auto

lemma earlier_content_mono:
  assumes "earlier_content E rs n prior" and "n \<le> length rs" and "n \<le> n'"
  shows "earlier_content E (rs @ xs) n' prior"
proof -
  from assms(1) obtain m response where m: "m < n"
    and r: "getCompletion_OCR E m (rs ! m) = Inr response" "prior = r_content response"
    unfolding earlier_content_iff by blast
  have "(rs @ xs) ! m = rs ! m" using m assms(2) by (simp add: nth_append)
  then show ?thesis unfolding earlier_content_iff using m r assms(3)
    by (metis less_le_trans)
qed

lemma concurrent_request_ok_mono:
  assumes "concurrent_request_ok E rs n" and "n < length rs"
  shows "concurrent_request_ok E (rs @ xs) n"
proof -
  have e: "(rs @ xs) ! n = rs ! n" using assms(2) by (simp add: nth_append)
  have "earlier_content E (rs @ xs) n p" if "earlier_content E rs n p" for p
    using earlier_content_mono [OF that _ le_refl, of xs] assms(2) by simp
  then show ?thesis using assms(1) unfolding concurrent_request_ok_def e by blast
qed

lemma systemPrompt_no_format: "\<not> c_maintainFormat args \<Longrightarrow> systemPrompt args = basePrompt"
  by (simp add: systemPrompt_def)

lemma log_ok_issue:
  assumes "log_ok E s"
  shows "log_ok E (issue (ocr_args buffer False s) s)"
proof -
  let ?args = "ocr_args buffer False s" and ?rs = "requests s"
  have p: "priorPage s = [] \<or> earlier_content E ?rs (length ?rs) (priorPage s)"
    and old: "\<And>n. n < length ?rs \<Longrightarrow> concurrent_request_ok E ?rs n"
    using assms by (simp_all add: log_ok_def list_all_iff)
  have p': "priorPage s = [] \<or> earlier_content E (?rs @ [?args]) (length ?rs) (priorPage s)"
    using p earlier_content_mono [of E ?rs "length ?rs" "priorPage s" "length ?rs" "[?args]"]
    by auto
  have new: "concurrent_request_ok E (?rs @ [?args]) (length ?rs)"
    using p' by (simp add: concurrent_request_ok_def ocr_args_def systemPrompt_def)
  have all: "concurrent_request_ok E (?rs @ [?args]) n" if "n < Suc (length ?rs)" for n
  proof (cases "n = length ?rs")
    case True
    then show ?thesis using new by simp
  next
    case False
    then have "n < length ?rs" using that by simp
    then show ?thesis using old concurrent_request_ok_mono by blast
  qed
  have p'': "priorPage s = []
               \<or> earlier_content E (?rs @ [?args]) (Suc (length ?rs)) (priorPage s)"
    using p earlier_content_mono [of E ?rs "length ?rs" "priorPage s" "Suc (length ?rs)" "[?args]"]
    by auto
  show ?thesis using p'' all by (simp add: log_ok_def issue_def list_all_iff)
qed

lemma log_ok_success:
  assumes "log_ok E s" and "n < length (requests s)"
    and "getCompletion_OCR E n (requests s ! n) = Inr response"
  shows "log_ok E (snd (ocr_success pn response s))"
proof -
  have "earlier_content E (requests s) (length (requests s)) (r_content response)"
    unfolding earlier_content_iff using assms(2,3) by blast
  then show ?thesis using assms(1)
    by (simp add: log_ok_def ocr_success_def isCompletionResponse_OCR_def)
qed

lemma log_ok_frame:
  "log_ok E s \<Longrightarrow> requests s' = requests s \<Longrightarrow> priorPage s' = priorPage s \<Longrightarrow> log_ok E s'"
  by (simp add: log_ok_def)

lemma ocr_step_log:
  assumes ok: "tasks_ok E a imgs st" and lg: "log_ok E (snd st)"
    and st: "ocr_step E a imgs ev st = Some (Inr st')"
  shows "log_ok E (snd st')"
proof -
  obtain ts s where [simp]: "st = (ts, s)" by (cases st)
  have ok': "tasks_ok E a imgs (ts, s)" and lg': "log_ok E s" using ok lg by simp_all
  show ?thesis
  proof (cases ev)
    case (Admit i)
    then show ?thesis using st lg' by (auto split: if_splits)
  next
    case (Request i)
    then show ?thesis using st log_ok_issue [OF lg']
      by (auto split: if_splits sum.splits)
  next
    case (Write i)
    then obtain pg where "st' = (ts[i := Finished pg], s\<lparr>pages := js_assign (pages s) i pg\<rparr>)"
      using st by (auto split: if_splits task.splits option.splits)
    then show ?thesis using log_ok_frame [OF lg'] by simp
  next
    case (Respond i)
    then have i: "i < length ts" using st by (auto split: if_splits)
    have r: "respond E a (length imgs) i (ts ! i) (ts, s) = Some (Inr st')"
      using st Respond i by simp
    show ?thesis
    proof (cases "ts ! i")
      case (Waiting k buffer n args)
      have t: "n < length (requests s)" "requests s ! n = args"
        using tasks_ok_nth [OF ok' i] Waiting by simp_all
      show ?thesis
      proof (cases "getCompletion_OCR E n args")
        case (Inr response)
        then have "snd st' = snd (ocr_success (int i + 1) response s)"
          using r Waiting by (auto split: prod.splits)
        then show ?thesis using log_ok_success [OF lg' t(1)] Inr t(2) by simp
      next
        case (Inl e)
        show ?thesis
        proof (cases k)
          case (Suc k')
          then have "snd st' = issue (ocr_args buffer False s) s"
            using r Waiting Inl by auto
          then show ?thesis using log_ok_issue [OF lg'] by simp
        next
          case 0
          then have "snd st' = s\<lparr>numFailedOCRRequests := numFailedOCRRequests s + 1\<rparr>"
            using r Waiting Inl by (auto simp: ocr_failure_def split: if_splits)
          then show ?thesis using log_ok_frame [OF lg'] by simp
        qed
      qed
    qed (use r in simp_all)
  qed
qed

lemma ocr_run_log:
  "tasks_ok E a imgs st \<Longrightarrow> log_ok E (snd st) \<Longrightarrow> ocr_run E a imgs evs st = Some (Inr st')
     \<Longrightarrow> log_ok E (snd st')"
proof (induction evs arbitrary: st)
  case Nil
  then show ?case by simp
next
  case (Cons ev evs)
  from Cons.prems(3) obtain st1 where 1: "ocr_step E a imgs ev st = Some (Inr st1)"
    and 2: "ocr_run E a imgs evs st1 = Some (Inr st')"
    by (auto split: option.splits sum.splits)
  show ?case
    using Cons.IH [OF ocr_step_inv [OF Cons.prems(1) 1] ocr_step_log [OF Cons.prems(1,2) 1] 2] .
qed

lemma log_ok_initial: "requests s = [] \<Longrightarrow> priorPage s = [] \<Longrightarrow> log_ok E s"
  by (simp add: log_ok_def)

lemma runRetries_ocr_call:
  "runRetries (ocr_call E buffer mf) k s = (r, s') \<Longrightarrow>
     priorPage s' = priorPage s
     \<and> (\<exists>m. requests s' = requests s @ replicate m (ocr_args buffer mf s))"
proof (induction k arbitrary: s)
  case 0
  then have "s' = issue (ocr_args buffer mf s) s" by (auto simp: ocr_call_def)
  then have "priorPage s' = priorPage s"
    and "requests s' = requests s @ replicate 1 (ocr_args buffer mf s)"
    by (simp_all add: issue_def)
  then show ?case by blast
next
  case (Suc k)
  let ?s1 = "issue (ocr_args buffer mf s) s"
  have s1: "priorPage ?s1 = priorPage s" "requests ?s1 = requests s @ [ocr_args buffer mf s]"
    "ocr_args buffer mf ?s1 = ocr_args buffer mf s"
    by (simp_all add: issue_def ocr_args_def)
  show ?case
  proof (cases "getCompletion_OCR E (length (requests s)) (ocr_args buffer mf s)")
    case (Inr v)
    then have "ocr_call E buffer mf s = (Inr v, ?s1)" by (simp add: ocr_call_def)
    then have "s' = ?s1" using Suc.prems by simp
    then have "priorPage s' = priorPage s"
      and "requests s' = requests s @ replicate 1 (ocr_args buffer mf s)"
      using s1 by simp_all
    then show ?thesis by blast
  next
    case (Inl e)
    then have "ocr_call E buffer mf s = (Inl e, ?s1)" by (simp add: ocr_call_def)
    then have "runRetries (ocr_call E buffer mf) k ?s1 = (r, s')"
      using Suc.prems by simp
    from Suc.IH [OF this] obtain m where "priorPage s' = priorPage s"
      and "requests s' = requests s @ replicate (Suc m) (ocr_args buffer mf s)"
      using s1 by auto
    then show ?thesis by blast
  qed
qed

lemma ocr_outcome_requests:
  "ocr_outcome m pn (r, s) = Inr (pg, s') \<Longrightarrow> requests s' = requests s"
  by (auto simp: ocr_outcome_def ocr_success_def ocr_failure_def split: sum.splits if_splits)

lemma processOCR_requests:
  assumes "processOCR E a n imagePath pn mf s = (r, s')"
  shows "\<forall>q\<in>set (drop (length (requests s)) (requests s')).
           c_maintainFormat q = mf \<and> c_priorPage q = priorPage s"
proof (cases "cleanupImage E imagePath pn")
  case (Inl e)
  then show ?thesis using assms by (simp add: processOCR_def)
next
  case (Inr buffer)
  obtain r1 s1 where rr: "runRetries (ocr_call E buffer mf) (maxRetries a - 1) s = (r1, s1)"
    by (cases "runRetries (ocr_call E buffer mf) (maxRetries a - 1) s")
  from runRetries_ocr_call [OF rr] obtain m
    where m: "requests s1 = requests s @ replicate m (ocr_args buffer mf s)" by blast
  have "requests s' = requests s1"
  proof (cases "ocr_outcome (errorMode a) pn (r1, s1)")
    case (Inl e)
    then show ?thesis using assms Inr rr by (simp add: processOCR_def)
  next
    case o: (Inr ps)
    obtain pg s2 where ps: "ps = (pg, s2)" by (cases ps)
    have "requests s2 = requests s1" using o ps ocr_outcome_requests by blast
    then show ?thesis using assms Inr rr o ps
      by (auto simp: processOCR_def split: option.splits)
  qed
  then show ?thesis using m by (auto simp: ocr_args_def)
qed

lemma processOCR_success_prior:
  assumes "processOCR E a n imagePath pn mf s = (Inr pg, s')" and "status pg = SUCCESS"
  shows "priorPage s' = content pg"
proof (cases "cleanupImage E imagePath pn")
  case (Inl e)
  then show ?thesis using assms by (simp add: processOCR_def)
next
  case (Inr buffer)
  obtain r1 s1 where rr: "runRetries (ocr_call E buffer mf) (maxRetries a - 1) s = (r1, s1)"
    by (cases "runRetries (ocr_call E buffer mf) (maxRetries a - 1) s")
  from assms(1) Inr rr have o: "ocr_outcome (errorMode a) pn (r1, s1) = Inr (pg, s')"
    by (auto simp: processOCR_def Let_def split: sum.splits option.splits)
  show ?thesis
  proof (cases r1)
    case (Inl e)
    then show ?thesis using o assms(2)
      by (auto simp: ocr_outcome_def ocr_failure_def error_page_def split: if_splits)
  next
    case (Inr response)
    then show ?thesis using o
      by (auto simp: ocr_outcome_def ocr_success_def success_page_def
          isCompletionResponse_OCR_def)
  qed
qed

lemma sequential_last_page:
  assumes "ocr_sequential E a n xs i s = (None, s1)" and "xs \<noteq> []"
  shows "\<exists>pg. pages s1 \<noteq> [] \<and> last (pages s1) = Some pg
           \<and> (status pg = SUCCESS \<longrightarrow> priorPage s1 = content pg)"
  using assms
proof (induction xs arbitrary: i s)
  case Nil
  then show ?case by simp
next
  case (Cons x xs)
  obtain r s' where p: "processOCR E a n x (int i + 1) True s = (r, s')"
    by (cases "processOCR E a n x (int i + 1) True s")
  from Cons.prems(1) p obtain pg where r: "r = Inr pg" by (cases r) auto
  let ?s = "s'\<lparr>pages := pages s' @ [Some pg]\<rparr>"
  have here: "pages ?s \<noteq> [] \<and> last (pages ?s) = Some pg
                \<and> (status pg = SUCCESS \<longrightarrow> priorPage ?s = content pg)"
    using processOCR_success_prior [of E a n x "int i + 1" True s pg s'] p r by simp
  show ?case
  proof (cases "status pg = ERROR \<or> xs = []")
    case True
    then have "s1 = ?s" using Cons.prems(1) p r by (auto split: if_splits)
    then show ?thesis using here by blast
  next
    case False
    then have "ocr_sequential E a n xs (Suc i) ?s = (None, s1)"
      using Cons.prems(1) p r by simp
    from Cons.IH [OF this] False show ?thesis by simp
  qed
qed

text \<open>
  C8, as amended.  In bounded-concurrency mode every request is issued without
  \<^verbatim>\<open>maintainFormat\<close>, so that the prompt of the client is the base prompt and does not
  depend on the prior page; the \<^verbatim>\<open>priorPage\<close> value it carries is the shared variable
  of that moment: empty, or the content answered to an earlier request of the run.  In
  format-continuity mode the loop reaches the page at index \<open>k\<close> in the state the pages
  before it left, and every request for that page carries \<^verbatim>\<open>maintainFormat\<close> and, as
  prior page, the content of the page at index \<open>k - 1\<close> (the initial value for \<open>k = 0\<close>).
\<close>

theorem prior_page_context:
  "(ocr_run E a imagePaths evs (replicate (length imagePaths) Queued, si) = Some (Inr (ts, s))
      \<and> pages si = [] \<and> requests si = [] \<and> priorPage si = []
    \<longrightarrow> list_all (concurrent_request_ok E (requests s)) [0..<length (requests s)])
   \<and> (k < length imagePaths \<and> pages si = []
      \<and> ocr_sequential E a n (take k imagePaths) 0 si = (None, sk)
      \<and> statuses_of (pages sk) = replicate k (Some SUCCESS)
      \<and> processOCR E a n (imagePaths ! k) (int k + 1) True sk = (r, sn)
    \<longrightarrow> ocr_sequential E a n imagePaths 0 si = ocr_sequential E a n (drop k imagePaths) k sk
      \<and> (\<forall>q\<in>set (drop (length (requests sk)) (requests sn)).
            c_maintainFormat q \<and> c_priorPage q = priorPage sk)
      \<and> (k = 0 \<longrightarrow> priorPage sk = priorPage si)
      \<and> (0 < k \<longrightarrow> (\<exists>pg. pages sk ! (k - 1) = Some pg \<and> priorPage sk = content pg)))"
proof (intro conjI impI; (elim conjE)?)
  assume run: "ocr_run E a imagePaths evs (replicate (length imagePaths) Queued, si)
                 = Some (Inr (ts, s))"
    and init: "pages si = []" "requests si = []" "priorPage si = []"
  have "log_ok E (snd (ts, s))"
    by (rule ocr_run_log [OF tasks_ok_initial [OF init(1)] _ run])
      (simp add: log_ok_initial init)
  then show "list_all (concurrent_request_ok E (requests s)) [0..<length (requests s)]"
    by (simp add: log_ok_def)
next
  assume k: "k < length imagePaths" and p0: "pages si = []"
    and pre: "ocr_sequential E a n (take k imagePaths) 0 si = (None, sk)"
    and st: "statuses_of (pages sk) = replicate k (Some SUCCESS)"
    and pr: "processOCR E a n (imagePaths ! k) (int k + 1) True sk = (r, sn)"
  have len: "length (take k imagePaths) = k" using k by simp
  have st': "statuses_of (pages sk)
               = statuses_of (pages si) @ replicate (length (take k imagePaths)) (Some SUCCESS)"
    using p0 st len by (simp add: statuses_of_def)
  have "ocr_sequential E a n (take k imagePaths @ drop k imagePaths) 0 si
          = ocr_sequential E a n (drop k imagePaths) (0 + length (take k imagePaths)) sk"
    by (rule sequential_prefix [OF pre st'])
  then show "ocr_sequential E a n imagePaths 0 si
               = ocr_sequential E a n (drop k imagePaths) k sk"
    by (simp only: append_take_drop_id len add_0)
  show "\<forall>q\<in>set (drop (length (requests sk)) (requests sn)).
          c_maintainFormat q \<and> c_priorPage q = priorPage sk"
    using processOCR_requests [OF pr] by simp
  {
    assume "k = 0"
    then show "priorPage sk = priorPage si" using pre by simp
  }
  {
    assume pos: "0 < k"
    then have "take k imagePaths \<noteq> []" using k by auto
    from sequential_last_page [OF pre this] obtain pg
      where pg: "pages sk \<noteq> []" "last (pages sk) = Some pg"
        "status pg = SUCCESS \<longrightarrow> priorPage sk = content pg"
      by blast
    have l: "length (pages sk) = k"
    proof -
      have "length (statuses_of (pages sk)) = k" unfolding st by simp
      then show ?thesis by (simp add: statuses_of_def)
    qed
    have at: "pages sk ! (k - 1) = Some pg" using pg(1,2) l by (simp add: last_conv_nth)
    have "statuses_of (pages sk) ! (k - 1) = Some SUCCESS" unfolding st using pos by simp
    then have "status pg = SUCCESS" using at l pos by (simp add: statuses_of_def)
    then show "\<exists>pg. pages sk ! (k - 1) = Some pg \<and> priorPage sk = content pg"
      using at pg(3) by blast
  }
qed

lemma in_order_run:
  "ocr_run (sample_env [''a'', ''b'']) sample_args [''a'', ''b''] (one_by_one 2)
     (replicate (length [''a'', ''b'']) Queued, initial_state)
     = Some (Inr (in_order_tasks, in_order_state))"
  by code_simp

theorem prior_page_context_witness:
  "ocr_run (sample_env [''a'', ''b'']) sample_args [''a'', ''b''] (one_by_one 2)
     (replicate (length [''a'', ''b'']) Queued, initial_state)
     = Some (Inr (in_order_tasks, in_order_state))
   \<and> pages initial_state = [] \<and> requests initial_state = [] \<and> priorPage initial_state = []
   \<and> list_all (concurrent_request_ok (sample_env [''a'', ''b'']) (requests in_order_state))
        [0..<length (requests in_order_state)]
   \<and> map c_priorPage (requests in_order_state) = [[], ''a'']
   \<and> 1 < length [''a'', ''bad'', ''c'']
   \<and> ocr_sequential (sample_env [''a'', ''bad'', ''c'']) continuity_args 3
        (take 1 [''a'', ''bad'', ''c'']) 0 initial_state = (None, after_first)
   \<and> statuses_of (pages after_first) = replicate 1 (Some SUCCESS)
   \<and> processOCR (sample_env [''a'', ''bad'', ''c'']) continuity_args 3
        ([''a'', ''bad'', ''c''] ! 1) (int 1 + 1) True after_first = (Inr page_bad, after_second)
   \<and> ocr_sequential (sample_env [''a'', ''bad'', ''c'']) continuity_args 3
        [''a'', ''bad'', ''c''] 0 initial_state
       = ocr_sequential (sample_env [''a'', ''bad'', ''c'']) continuity_args 3
           (drop 1 [''a'', ''bad'', ''c'']) 1 after_first
   \<and> (\<exists>pg. pages after_first ! (1 - 1) = Some pg \<and> priorPage after_first = content pg)
   \<and> map c_priorPage (drop (length (requests after_first)) (requests after_second)) = [''a'']"
proof -
  have i: "pages initial_state = []" "requests initial_state = []" "priorPage initial_state = []"
    by (simp_all add: initial_state_def)
  have k: "1 < length [''a'', ''bad'', ''c'']" by simp
  have pre: "ocr_sequential (sample_env [''a'', ''bad'', ''c'']) continuity_args 3
        (take 1 [''a'', ''bad'', ''c'']) 0 initial_state = (None, after_first)" by code_simp
  have st: "statuses_of (pages after_first) = replicate 1 (Some SUCCESS)" by code_simp
  have pr: "processOCR (sample_env [''a'', ''bad'', ''c'']) continuity_args 3
        ([''a'', ''bad'', ''c''] ! 1) (int 1 + 1) True after_first = (Inr page_bad, after_second)"
    by code_simp
  have m: "map c_priorPage (requests in_order_state) = [[], ''a'']" by code_simp
  have d: "map c_priorPage (drop (length (requests after_first)) (requests after_second)) = [''a'']"
    by code_simp
  note t = prior_page_context [where E = "sample_env [''a'', ''b'']" and a = sample_args
      and imagePaths = "[''a'', ''b'']" and evs = "one_by_one 2" and si = initial_state
      and ts = in_order_tasks and s = in_order_state, THEN conjunct1, rule_format,
      OF conjI [OF in_order_run conjI [OF i(1) conjI [OF i(2) i(3)]]]]
  note u = prior_page_context [where E = "sample_env [''a'', ''bad'', ''c'']"
      and a = continuity_args and imagePaths = "[''a'', ''bad'', ''c'']" and k = 1
      and si = initial_state and n = 3 and sk = after_first and r = "Inr page_bad"
      and sn = after_second, THEN conjunct2, rule_format,
      OF conjI [OF k conjI [OF i(1) conjI [OF pre conjI [OF st pr]]]]]
  have u1: "ocr_sequential (sample_env [''a'', ''bad'', ''c'']) continuity_args 3
        [''a'', ''bad'', ''c''] 0 initial_state
       = ocr_sequential (sample_env [''a'', ''bad'', ''c'']) continuity_args 3
           (drop 1 [''a'', ''bad'', ''c'']) 1 after_first"
    using u by blast
  have u2: "\<exists>pg. pages after_first ! (1 - 1) = Some pg \<and> priorPage after_first = content pg"
    using u by simp
  show ?thesis using in_order_run i t m k pre st pr u1 u2 d by (intro conjI)
qed

theorem concurrent_prior_page_counterexample:
  "\<not> maintainFormat one_at_a_time \<and> \<not> extractOnly one_at_a_time
   \<and> map c_priorPage (run_requests (ocr_phase (sample_env [''a'', ''b'']) (one_by_one 2)
        one_at_a_time [''a'', ''b''] initial_state)) = [[], ''a'']"
  by code_simp

section \<open>The invocation as a whole\<close>

lemma zerox_finish_pages:
  "zerox_finish E a sel n s x w = (Inr out, w') \<Longrightarrow> o_pages out = formattedPages sel (pages s)"
  by (auto simp: zerox_finish_def split: option.splits sum.splits if_splits)

lemma zerox_finish_caller: "zerox_finish E a sel n s x w = (r, w') \<Longrightarrow> callerPages w' = callerPages w"
  by (auto simp: zerox_finish_def split: option.splits sum.splits if_splits)

lemma zerox_finish_effect: "zerox_finish E a sel n s x w = (r, w') \<Longrightarrow> body_effect E a w r w'"
  by (auto simp: zerox_finish_def body_effect_def split: option.splits sum.splits if_splits)

lemma zerox_process_cases:
  assumes "zerox_process E sched a sel imgs w = Some (r, w')"
  shows "(\<exists>e. r = Inl e \<and> w' = w)
         \<or> (\<exists>s x. zerox_finish E a sel (length imgs) s x w = (r, w'))"
  using assms unfolding zerox_process_def
  by (auto split: option.splits sum.splits prod.splits)

lemma body_effect_refl: "body_effect E a w (Inl e) w"
  by (simp add: body_effect_def)

lemma zerox_process_pages:
  "zerox_process E sched a sel imgs w = Some (Inr out, w') \<Longrightarrow>
     \<exists>ps. o_pages out = formattedPages sel ps"
  using zerox_process_cases zerox_finish_pages by blast

lemma zerox_process_caller:
  "zerox_process E sched a sel imgs w = Some (r, w') \<Longrightarrow> callerPages w' = callerPages w"
  using zerox_process_cases zerox_finish_caller by blast

lemma zerox_process_effect:
  assumes "zerox_process E sched a sel imgs w = Some (r, w')"
  shows "body_effect E a w r w'"
  using zerox_process_cases [OF assms]
proof (elim disjE exE conjE)
  fix e
  assume "r = Inl e" "w' = w"
  then show ?thesis by (simp add: body_effect_refl)
next
  fix s x
  assume "zerox_finish E a sel (length imgs) s x w = (r, w')"
  then show ?thesis by (rule zerox_finish_effect)
qed

lemma zerox_body_cases:
  assumes "zerox_body E sched a w = Some (r, w')"
  shows "(\<exists>e. r = Inl e \<and> w' = w \<and> ensureDir E \<noteq> None)
       \<or> (\<exists>e. r = Inl e \<and> w' = w\<lparr>tempDirectory := True\<rparr> \<and> ensureDir E = None
             \<and> (case downloadFile E of Inl e \<Rightarrow> True | Inr (ext, localPath) \<Rightarrow> localPath = []))
       \<or> (\<exists>e. r = Inl e
             \<and> w' = w\<lparr>tempDirectory := True,
                       callerPages := sort_selector (pagesToConvertAsImages a)\<rparr>
             \<and> ensureDir E = None
             \<and> (case downloadFile E of Inl e \<Rightarrow> False | Inr (ext, localPath) \<Rightarrow> localPath \<noteq> []))
       \<or> (\<exists>imgs. zerox_process E sched a (sort_selector (pagesToConvertAsImages a)) imgs
                    (w\<lparr>tempDirectory := True,
                       callerPages := sort_selector (pagesToConvertAsImages a)\<rparr>) = Some (r, w')
             \<and> ensureDir E = None
             \<and> (case downloadFile E of Inl e \<Rightarrow> False | Inr (ext, localPath) \<Rightarrow> localPath \<noteq> []))"
  using assms unfolding zerox_body_def Let_def
  by (auto split: option.splits sum.splits prod.splits if_splits)

lemma body_effect_frame:
  "body_effect E a w1 r w' \<Longrightarrow> workerPool w1 = workerPool w \<Longrightarrow>
     terminateCalls w1 = terminateCalls w \<Longrightarrow> removeCalls w1 = removeCalls w \<Longrightarrow>
     body_effect E a w r w'"
  by (auto simp: body_effect_def split: sum.splits)

lemma zerox_body_effect:
  assumes "zerox_body E sched a w = Some (r, w')"
  shows "body_effect E a w r w'"
  using zerox_body_cases [OF assms]
proof (elim disjE exE conjE)
  fix imgs
  assume "zerox_process E sched a (sort_selector (pagesToConvertAsImages a)) imgs
            (w\<lparr>tempDirectory := True,
               callerPages := sort_selector (pagesToConvertAsImages a)\<rparr>) = Some (r, w')"
  from zerox_process_effect [OF this] show ?thesis
    by (rule body_effect_frame) simp_all
qed (simp_all add: body_effect_def)

lemma zerox_body_pages:
  assumes "zerox_body E sched a w = Some (Inr out, w')"
  shows "\<exists>ps. o_pages out = formattedPages (sort_selector (pagesToConvertAsImages a)) ps"
  using zerox_body_cases [OF assms] zerox_process_pages by blast

lemma zerox_body_caller:
  assumes "zerox_body E sched a w = Some (r, w')"
  shows "callerPages w' =
           (if ensureDir E = None
               \<and> (case downloadFile E of Inl e \<Rightarrow> False | Inr (ext, localPath) \<Rightarrow> localPath \<noteq> [])
            then sort_selector (pagesToConvertAsImages a) else callerPages w)"
  using zerox_body_cases [OF assms]
proof (elim disjE exE conjE)
  fix imgs
  assume p: "zerox_process E sched a (sort_selector (pagesToConvertAsImages a)) imgs
            (w\<lparr>tempDirectory := True,
               callerPages := sort_selector (pagesToConvertAsImages a)\<rparr>) = Some (r, w')"
    and "ensureDir E = None"
    and "case downloadFile E of Inl e \<Rightarrow> False | Inr (ext, localPath) \<Rightarrow> localPath \<noteq> []"
  then show ?thesis using zerox_process_caller [OF p] by simp
qed (auto split: sum.splits prod.splits)

lemma override_selector [simp]:
  "pagesToConvertAsImages (override_credentials args) = pagesToConvertAsImages args"
  "correctOrientation (override_credentials args) = correctOrientation args"
  "cleanup (override_credentials args) = cleanup args"
  by (simp_all add: override_credentials_def)

lemma finally_block_caller [simp]: "callerPages (finally_block a w) = callerPages w"
  by (simp add: finally_block_def)

lemma zerox_cases:
  assumes "zerox E sched args = Some (r, w, args')"
  shows "args' = args\<lparr>pagesToConvertAsImages := callerPages w\<rparr>
       \<and> ((\<not> enters_try E args \<and> w = initial_world args \<and> (\<exists>e. r = Inl e))
          \<or> (enters_try E args
              \<and> (\<exists>w'. zerox_body E sched (override_credentials args)
                         ((initial_world args)\<lparr>workerPool := correctOrientation args\<rparr>)
                        = Some (r, w')
                    \<and> w = finally_block (override_credentials args) w')))"
  using assms unfolding zerox_def zerox_locals_def zerox_run_def enters_try_def
  by (auto split: option.splits if_splits)

lemma result_pages_Some:
  assumes "i < length (result_pages z)"
  shows "\<exists>out w args'. z = Some (Inr out, w, args') \<and> result_pages z = o_pages out"
  using assms by (cases z rule: result_pages.cases) simp_all

lemma zerox_pages:
  assumes "zerox E sched args = Some (Inr out, w, args')"
  shows "\<exists>ps. o_pages out = formattedPages (sort_selector (pagesToConvertAsImages args)) ps"
proof -
  from zerox_cases [OF assms] obtain w'
    where "zerox_body E sched (override_credentials args)
             ((initial_world args)\<lparr>workerPool := correctOrientation args\<rparr>) = Some (Inr out, w')"
    by auto
  from zerox_body_pages [OF this] show ?thesis by simp
qed

lemma formattedPages_page:
  assumes "i < length (formattedPages sel ps)" and "formattedPages sel ps ! i = Some pg"
  shows "page pg = correctPageNumber sel i"
proof -
  have i: "i < length ps" using assms(1) by (simp add: formattedPages_def length_formatPages)
  from assms(2) formatPages_nth [OF i, of sel 0] show ?thesis
    by (auto simp: formattedPages_def)
qed

text \<open>
  C5.  The page at index \<open>i\<close> of the returned list is numbered \<open>i + 1\<close> when
  \<^verbatim>\<open>pagesToConvertAsImages\<close> is \<open>-1\<close>, by the \<open>i\<close>-th element of the selector list sorted
  in ascending order when it is a list (\<^verbatim>\<open>undefined\<close> when the list has no such element),
  and by the selector itself when it is another single number.
\<close>

theorem caller_page_numbers:
  assumes "i < length (result_pages (zerox E sched args))"
    and "result_pages (zerox E sched args) ! i = Some pg"
  shows "(pagesToConvertAsImages args = Single (- 1) \<longrightarrow> page pg = Some (int i + 1))
       \<and> (\<forall>xs. pagesToConvertAsImages args = Multiple xs \<longrightarrow>
             page pg = (if i < length xs then Some (sort xs ! i) else None))
       \<and> (\<forall>n. pagesToConvertAsImages args = Single n \<and> n \<noteq> - 1 \<longrightarrow> page pg = Some n)"
proof -
  from result_pages_Some [OF assms(1)] obtain out w args'
    where z: "zerox E sched args = Some (Inr out, w, args')"
      and r: "result_pages (zerox E sched args) = o_pages out"
    by blast
  from zerox_pages [OF z] obtain ps
    where ps: "o_pages out = formattedPages (sort_selector (pagesToConvertAsImages args)) ps"
    by blast
  have "page pg = correctPageNumber (sort_selector (pagesToConvertAsImages args)) i"
    using formattedPages_page [of i "sort_selector (pagesToConvertAsImages args)" ps pg]
      assms r ps by simp
  then show ?thesis
    by (cases "pagesToConvertAsImages args") (auto simp: correctPageNumber_def)
qed

theorem caller_page_numbers_witness:
  "1 < length (result_pages (zerox (sample_env [''a'', ''b'', ''c'']) (sample_schedule 3)
        unsorted_args))
   \<and> result_pages (zerox (sample_env [''a'', ''b'', ''c'']) (sample_schedule 3) unsorted_args) ! 1
       = Some (page_b\<lparr>page := Some 7\<rparr>)
   \<and> pagesToConvertAsImages unsorted_args = Multiple [7, 3, 9]
   \<and> page (page_b\<lparr>page := Some 7\<rparr>)
       = (if 1 < length [7, 3, 9 :: int] then Some (sort [7, 3, 9] ! 1) else None)
   \<and> numbers_of (result_pages (zerox (sample_env [''a'', ''b'', ''c'']) (sample_schedule 3)
        unsorted_args)) = Some [3, 7, 9]"
proof -
  have l: "1 < length (result_pages (zerox (sample_env [''a'', ''b'', ''c'']) (sample_schedule 3)
        unsorted_args))" by code_simp
  have p: "result_pages (zerox (sample_env [''a'', ''b'', ''c'']) (sample_schedule 3)
        unsorted_args) ! 1 = Some (page_b\<lparr>page := Some 7\<rparr>)" by code_simp
  have u: "pagesToConvertAsImages unsorted_args = Multiple [7, 3, 9]" by code_simp
  have n: "numbers_of (result_pages (zerox (sample_env [''a'', ''b'', ''c'']) (sample_schedule 3)
        unsorted_args)) = Some [3, 7, 9]" by code_simp
  from caller_page_numbers [OF l p] u
  have "page (page_b\<lparr>page := Some 7\<rparr>)
       = (if 1 < length [7, 3, 9 :: int] then Some (sort [7, 3, 9] ! 1) else None)"
    by blast
  then show ?thesis using l p u n by (intro conjI)
qed

section \<open>The OpenAI key\<close>

lemma override_with_key:
  assumes "openaiAPIKey args \<noteq> []"
  shows "override_credentials (args\<lparr>credentials := c, modelProvider := p\<rparr>)
           = override_credentials args"
  using assms by (simp add: override_credentials_def)

lemma initial_world_credentials:
  "initial_world (args\<lparr>credentials := c, modelProvider := p\<rparr>) = initial_world args"
  by (simp add: initial_world_def)

lemma override_keyed:
  assumes "openaiAPIKey args \<noteq> []"
  shows "override_credentials args
           = args\<lparr>modelProvider := OPENAI, credentials := OpenAICredentials (openaiAPIKey args)\<rparr>"
  using assms by (simp add: override_credentials_def)

lemma keyed_credentials_pass:
  assumes "k \<noteq> []"
  shows "validators (args\<lparr>modelProvider := OPENAI, credentials := OpenAICredentials k\<rparr>)
           = input_validators (args\<lparr>modelProvider := OPENAI, credentials := OpenAICredentials k\<rparr>)"
  using assms by (simp add: validators_def)

lemma caller_unchanged:
  "args\<lparr>pagesToConvertAsImages := callerPages (initial_world args)\<rparr> = args"
  by (simp add: initial_world_def)

text \<open>
  C9.  With a non-empty \<^verbatim>\<open>openaiAPIKey\<close>, \<^verbatim>\<open>zerox\<close> runs on the provider OPENAI and the
  credentials \<open>{apiKey: openaiAPIKey}\<close>, and it passes the credentials check: it is the
  run of the checks of the file path and of the mode, and of all that follows them, on
  these locals.  So an invocation without a file path fails with the error of the next
  check, never with that of the credentials; and whatever provider and credentials the
  caller supplied have no effect on the result or on the world: they only stay in the
  caller's object.
\<close>

theorem openai_key_overrides:
  assumes "openaiAPIKey args \<noteq> []"
  shows "zerox E sched args
           = map_option (\<lambda>(r, w'). (r, w', args\<lparr>pagesToConvertAsImages := callerPages w'\<rparr>))
               (case input_validators
                       (args\<lparr>modelProvider := OPENAI,
                             credentials := OpenAICredentials (openaiAPIKey args)\<rparr>) of
                  Some e \<Rightarrow> Some (Inl e, initial_world args)
                | None \<Rightarrow>
                    zerox_run E sched
                      (args\<lparr>modelProvider := OPENAI,
                            credentials := OpenAICredentials (openaiAPIKey args)\<rparr>)
                      (initial_world args))
       \<and> input_validators
            (args\<lparr>modelProvider := OPENAI, credentials := OpenAICredentials (openaiAPIKey args)\<rparr>)
           \<noteq> Some MissingCredentials
       \<and> (filePath args = []
            \<longrightarrow> zerox E sched args = Some (Inl MissingFilePath, initial_world args, args))
       \<and> zerox E sched (args\<lparr>credentials := c, modelProvider := p\<rparr>)
           = map_option (\<lambda>(r, w, args'). (r, w, args'\<lparr>credentials := c, modelProvider := p\<rparr>))
               (zerox E sched args)"
proof -
  let ?a = "args\<lparr>modelProvider := OPENAI, credentials := OpenAICredentials (openaiAPIKey args)\<rparr>"
  have loc: "zerox_locals E sched ?a (initial_world args)
               = (case input_validators ?a of
                    Some e \<Rightarrow> Some (Inl e, initial_world args)
                  | None \<Rightarrow> zerox_run E sched ?a (initial_world args))"
    unfolding zerox_locals_def keyed_credentials_pass [OF assms] ..
  have 1: "zerox E sched args
             = map_option (\<lambda>(r, w'). (r, w', args\<lparr>pagesToConvertAsImages := callerPages w'\<rparr>))
                 (case input_validators ?a of
                    Some e \<Rightarrow> Some (Inl e, initial_world args)
                  | None \<Rightarrow> zerox_run E sched ?a (initial_world args))"
    unfolding zerox_def override_keyed [OF assms] loc ..
  have 2: "input_validators ?a \<noteq> Some MissingCredentials"
    by (simp add: input_validators_def)
  have 3: "zerox E sched args = Some (Inl MissingFilePath, initial_world args, args)"
    if "filePath args = []"
  proof -
    have "input_validators ?a = Some MissingFilePath" using that by (simp add: input_validators_def)
    then show ?thesis unfolding 1 by (simp add: caller_unchanged)
  qed
  have 4: "zerox E sched (args\<lparr>credentials := c, modelProvider := p\<rparr>)
           = map_option (\<lambda>(r, w, args'). (r, w, args'\<lparr>credentials := c, modelProvider := p\<rparr>))
               (zerox E sched args)"
    unfolding zerox_def override_with_key [OF assms] initial_world_credentials
    by (cases "zerox_locals E sched (override_credentials args) (initial_world args)") auto
  show ?thesis using 1 2 3 4 by blast
qed

theorem openai_key_overrides_witness:
  "openaiAPIKey bedrock_args \<noteq> []
   \<and> modelProvider bedrock_args = BEDROCK \<and> credentials bedrock_args = bedrock_credentials
   \<and> zerox (sample_env [''a'', ''b'']) (sample_schedule 2) bedrock_args
       = map_option (\<lambda>(r, w'). (r, w', bedrock_args\<lparr>pagesToConvertAsImages := callerPages w'\<rparr>))
           (zerox_run (sample_env [''a'', ''b'']) (sample_schedule 2)
              (bedrock_args\<lparr>modelProvider := OPENAI,
                 credentials := OpenAICredentials (openaiAPIKey bedrock_args)\<rparr>)
              (initial_world bedrock_args))
   \<and> statuses_of (result_pages (zerox (sample_env [''a'', ''b'']) (sample_schedule 2) bedrock_args))
       = [Some SUCCESS, Some SUCCESS]
   \<and> zerox (sample_env [''a'', ''b'']) (sample_schedule 2)
        (bedrock_args\<lparr>credentials := OpenAICredentials [], modelProvider := OPENAI\<rparr>)
       = map_option
           (\<lambda>(r, w, args'). (r, w, args'\<lparr>credentials := OpenAICredentials [], modelProvider := OPENAI\<rparr>))
           (zerox (sample_env [''a'', ''b'']) (sample_schedule 2) bedrock_args)
   \<and> openaiAPIKey (sample_args\<lparr>filePath := []\<rparr>) \<noteq> []
   \<and> credentials (sample_args\<lparr>filePath := []\<rparr>) = OpenAICredentials []
   \<and> filePath (sample_args\<lparr>filePath := []\<rparr>) = []
   \<and> zerox (sample_env [''a'', ''b'']) (sample_schedule 2) (sample_args\<lparr>filePath := []\<rparr>)
       = Some (Inl MissingFilePath, initial_world (sample_args\<lparr>filePath := []\<rparr>),
               sample_args\<lparr>filePath := []\<rparr>)"
proof -
  let ?E = "sample_env [''a'', ''b'']"
  have k: "openaiAPIKey bedrock_args \<noteq> []" by code_simp
  have b: "modelProvider bedrock_args = BEDROCK" "credentials bedrock_args = bedrock_credentials"
    by (simp_all add: bedrock_args_def)
  have v: "input_validators
             (bedrock_args\<lparr>modelProvider := OPENAI,
                credentials := OpenAICredentials (openaiAPIKey bedrock_args)\<rparr>) = None"
    by code_simp
  note t = openai_key_overrides [OF k, where E = ?E and sched = "sample_schedule 2"
      and c = "OpenAICredentials []" and p = OPENAI]
  have 1: "zerox ?E (sample_schedule 2) bedrock_args
       = map_option (\<lambda>(r, w'). (r, w', bedrock_args\<lparr>pagesToConvertAsImages := callerPages w'\<rparr>))
           (zerox_run ?E (sample_schedule 2)
              (bedrock_args\<lparr>modelProvider := OPENAI,
                 credentials := OpenAICredentials (openaiAPIKey bedrock_args)\<rparr>)
              (initial_world bedrock_args))"
    using t v by simp
  have 2: "statuses_of (result_pages (zerox ?E (sample_schedule 2) bedrock_args))
       = [Some SUCCESS, Some SUCCESS]"
    by code_simp
  have 3: "zerox ?E (sample_schedule 2)
        (bedrock_args\<lparr>credentials := OpenAICredentials [], modelProvider := OPENAI\<rparr>)
       = map_option
           (\<lambda>(r, w, args'). (r, w, args'\<lparr>credentials := OpenAICredentials [], modelProvider := OPENAI\<rparr>))
           (zerox ?E (sample_schedule 2) bedrock_args)"
    using t by blast
  have k': "openaiAPIKey (sample_args\<lparr>filePath := []\<rparr>) \<noteq> []"
    and c': "credentials (sample_args\<lparr>filePath := []\<rparr>) = OpenAICredentials []"
    and f': "filePath (sample_args\<lparr>filePath := []\<rparr>) = []"
    by (simp_all add: sample_args_def)
  have 4: "zerox ?E (sample_schedule 2) (sample_args\<lparr>filePath := []\<rparr>)
       = Some (Inl MissingFilePath, initial_world (sample_args\<lparr>filePath := []\<rparr>),
               sample_args\<lparr>filePath := []\<rparr>)"
    using openai_key_overrides [OF k', where E = ?E and sched = "sample_schedule 2"] f'
    by blast
  show ?thesis using k b 1 2 3 k' c' f' 4 by (intro conjI)
qed

lemma reaches_sort_enters: "reaches_sort E args \<Longrightarrow> enters_try E args"
  by (simp add: reaches_sort_def enters_try_def)

lemma zerox_caller:
  assumes "zerox E sched args = Some (r, w, args')"
  shows "callerPages w =
           (if reaches_sort E args then sort_selector (pagesToConvertAsImages args)
            else pagesToConvertAsImages args)"
  using zerox_cases [OF assms]
proof (elim conjE disjE exE)
  assume "\<not> enters_try E args" "w = initial_world args"
  then show ?thesis using reaches_sort_enters by (auto simp: initial_world_def)
next
  fix w'
  assume e: "enters_try E args" and f: "w = finally_block (override_credentials args) w'"
    and b: "zerox_body E sched (override_credentials args)
              ((initial_world args)\<lparr>workerPool := correctOrientation args\<rparr>) = Some (r, w')"
  have "reaches_sort E args \<longleftrightarrow>
          ensureDir E = None
          \<and> (case downloadFile E of Inl e \<Rightarrow> False | Inr (ext, localPath) \<Rightarrow> localPath \<noteq> [])"
    using e by (simp add: reaches_sort_def enters_try_def)
  then show ?thesis using zerox_body_caller [OF b] f by (simp add: initial_world_def)
qed

lemma result_args_Some:
  "result_args z = Some args' \<Longrightarrow> \<exists>r w. z = Some (r, w, args')"
  by (cases z rule: result_args.cases) simp_all

text \<open>
  C10, as amended.  An invocation that passes the validators, sets up the scheduler and
  the temporary directory and downloads the file sorts an array selector in place, in
  ascending order, before the images are made and whatever happens afterwards; an
  invocation that fails earlier leaves the array as it was.  Every other field of the
  caller's object is unchanged, the provider and the credentials included.
\<close>

theorem selector_sorted_in_place:
  assumes "result_args (zerox E sched args) = Some args'"
  shows "args' = args\<lparr>pagesToConvertAsImages :=
                   (if reaches_sort E args then sort_selector (pagesToConvertAsImages args)
                    else pagesToConvertAsImages args)\<rparr>
       \<and> (\<forall>xs. pagesToConvertAsImages args = Multiple xs \<and> reaches_sort E args \<longrightarrow>
             pagesToConvertAsImages args' = Multiple (sort xs))
       \<and> (\<not> reaches_sort E args \<longrightarrow> args' = args)
       \<and> (\<forall>n. pagesToConvertAsImages args = Single n \<longrightarrow> args' = args)
       \<and> credentials args' = credentials args \<and> modelProvider args' = modelProvider args"
proof -
  from result_args_Some [OF assms] obtain r w where z: "zerox E sched args = Some (r, w, args')"
    by blast
  have a: "args' = args\<lparr>pagesToConvertAsImages := callerPages w\<rparr>"
    using zerox_cases [OF z] by blast
  have 1: "args' = args\<lparr>pagesToConvertAsImages :=
                   (if reaches_sort E args then sort_selector (pagesToConvertAsImages args)
                    else pagesToConvertAsImages args)\<rparr>"
    using a zerox_caller [OF z] by simp
  have 2: "pagesToConvertAsImages args' = Multiple (sort xs)"
    if "pagesToConvertAsImages args = Multiple xs \<and> reaches_sort E args" for xs
    using that 1 by simp
  have 3: "args' = args" if "\<not> reaches_sort E args" using that 1 by simp
  have 4: "args' = args" if "pagesToConvertAsImages args = Single n" for n
    using that 1 by (cases "reaches_sort E args") simp_all
  have 5: "credentials args' = credentials args" "modelProvider args' = modelProvider args"
    using a by simp_all
  show ?thesis using 1 2 3 4 5 by blast
qed

theorem selector_sorted_in_place_witness:
  "result_args (zerox (sample_env [''a'', ''b'', ''c'']) (sample_schedule 3) unsorted_args)
     = Some (unsorted_args\<lparr>pagesToConvertAsImages := Multiple [3, 7, 9]\<rparr>)
   \<and> pagesToConvertAsImages unsorted_args = Multiple [7, 3, 9]
   \<and> reaches_sort (sample_env [''a'', ''b'', ''c'']) unsorted_args
   \<and> pagesToConvertAsImages (unsorted_args\<lparr>pagesToConvertAsImages := Multiple [3, 7, 9]\<rparr>)
       = Multiple (sort [7, 3, 9])
   \<and> result_args (zerox offline_env (sample_schedule 2) unsorted_args) = Some unsorted_args
   \<and> \<not> reaches_sort offline_env unsorted_args"
proof -
  have h: "result_args (zerox (sample_env [''a'', ''b'', ''c'']) (sample_schedule 3) unsorted_args)
     = Some (unsorted_args\<lparr>pagesToConvertAsImages := Multiple [3, 7, 9]\<rparr>)" by code_simp
  have u: "pagesToConvertAsImages unsorted_args = Multiple [7, 3, 9]" by code_simp
  have s: "reaches_sort (sample_env [''a'', ''b'', ''c'']) unsorted_args" by code_simp
  have o: "result_args (zerox offline_env (sample_schedule 2) unsorted_args) = Some unsorted_args"
    by code_simp
  have n: "\<not> reaches_sort offline_env unsorted_args" by code_simp
  from selector_sorted_in_place [OF h] u s
  have "pagesToConvertAsImages (unsorted_args\<lparr>pagesToConvertAsImages := Multiple [3, 7, 9]\<rparr>)
       = Multiple (sort [7, 3, 9])"
    by blast
  then show ?thesis using h u s o n by (intro conjI)
qed

theorem failed_download_counterexample:
  "pagesToConvertAsImages unsorted_args = Multiple [7, 3, 9]
   \<and> result_error (zerox offline_env (sample_schedule 2) unsorted_args)
       = Some (ExternalError ''unreachable'')
   \<and> map_option pagesToConvertAsImages
        (result_args (zerox offline_env (sample_schedule 2) unsorted_args))
       = Some (Multiple [7, 3, 9])"
  by code_simp

lemma result_world_Some: "result_world z = Some w \<Longrightarrow> \<exists>r args'. z = Some (r, w, args')"
  by (cases z rule: result_world.cases) simp_all

lemma finally_block_frame [simp]:
  "removeCalls (finally_block a w) = removeCalls w"
  "tempDirectory (finally_block a w) = tempDirectory w"
  by (simp_all add: finally_block_def)

lemma finally_block_pool:
  "workerPool w = correctOrientation a \<Longrightarrow>
     \<not> workerPool (finally_block a w)
     \<and> terminateCalls (finally_block a w)
         = terminateCalls w + (if correctOrientation a then 1 else 0)"
  by (simp add: finally_block_def)

lemma zerox_teardown:
  assumes "zerox E sched args = Some (r, w, args')"
  shows "(if enters_try E args
          then terminateCalls w = (if correctOrientation args then 1 else 0) \<and> \<not> workerPool w
          else terminateCalls w = 0 \<and> removeCalls w = 0)
       \<and> (case r of
             Inr out \<Rightarrow> removeCalls w = (if cleanup args then 1 else 0)
                        \<and> (if cleanup args then \<not> tempDirectory w else True)
           | Inl e \<Rightarrow> removeCalls w = 0 \<or> (removeCalls w = 1 \<and> fs_remove E = Some e))"
  using zerox_cases [OF assms]
proof (elim conjE disjE exE)
  fix e
  assume "\<not> enters_try E args" "w = initial_world args" "r = Inl e"
  then show ?thesis by (simp add: initial_world_def)
next
  fix w'
  assume e: "enters_try E args" and f: "w = finally_block (override_credentials args) w'"
    and b: "zerox_body E sched (override_credentials args)
              ((initial_world args)\<lparr>workerPool := correctOrientation args\<rparr>) = Some (r, w')"
  from zerox_body_effect [OF b]
  have p: "workerPool w' = correctOrientation args" and t: "terminateCalls w' = 0"
    and c: "case r of
              Inr out \<Rightarrow> removeCalls w' = (if cleanup args then 1 else 0)
                        \<and> (if cleanup args then \<not> tempDirectory w' else True)
            | Inl e \<Rightarrow> removeCalls w' = 0 \<or> (removeCalls w' = 1 \<and> fs_remove E = Some e)"
    by (auto simp: body_effect_def initial_world_def split: sum.splits)
  have "workerPool w' = correctOrientation (override_credentials args)" using p by simp
  from finally_block_pool [OF this] t f
  have 1: "terminateCalls w = (if correctOrientation args then 1 else 0) \<and> \<not> workerPool w"
    by simp
  show ?thesis using e 1 c f by (simp split: sum.splits)
qed

text \<open>
  C6, as amended.  The termination of the worker pool is attempted once, whether the
  body of the \<^verbatim>\<open>try\<close> block returns or throws, when orientation correction is on and the
  block is entered (it is not entered when a validator or the set-up of the scheduler
  fails).  The removal of the temporary directory is the last effect of the body: it is
  attempted, when \<^verbatim>\<open>cleanup\<close> is on, before a value is returned; when the invocation
  throws, no removal was attempted, unless the error is that of the removal itself.
\<close>

theorem teardown:
  assumes "result_world (zerox E sched args) = Some w"
  shows "(enters_try E args \<longrightarrow>
            terminateCalls w = (if correctOrientation args then 1 else 0) \<and> \<not> workerPool w)
       \<and> (\<not> enters_try E args \<longrightarrow> terminateCalls w = 0 \<and> removeCalls w = 0)
       \<and> (result_error (zerox E sched args) = None \<longrightarrow>
            removeCalls w = (if cleanup args then 1 else 0)
            \<and> (cleanup args \<longrightarrow> \<not> tempDirectory w))
       \<and> (\<forall>e. result_error (zerox E sched args) = Some e \<longrightarrow>
            removeCalls w = 0 \<or> (removeCalls w = 1 \<and> fs_remove E = Some e))"
proof -
  from result_world_Some [OF assms] obtain r args'
    where z: "zerox E sched args = Some (r, w, args')" by blast
  note t = zerox_teardown [OF z]
  show ?thesis
  proof (cases r)
    case (Inl e)
    then have "result_error (zerox E sched args) = Some e" using z by simp
    then show ?thesis using t Inl by (auto split: if_splits)
  next
    case (Inr out)
    then have "result_error (zerox E sched args) = None" using z by simp
    then show ?thesis using t Inr by (auto split: if_splits)
  qed
qed

theorem teardown_witness:
  "result_world (zerox (sample_env [''a'', ''bad'', ''c'']) (sample_schedule 3) throw_args)
     = Some failed_world
   \<and> enters_try (sample_env [''a'', ''bad'', ''c'']) throw_args
   \<and> correctOrientation throw_args \<and> cleanup throw_args
   \<and> result_error (zerox (sample_env [''a'', ''bad'', ''c'']) (sample_schedule 3) throw_args)
       = Some boom
   \<and> terminateCalls failed_world = (if correctOrientation throw_args then 1 else 0)
   \<and> \<not> workerPool failed_world
   \<and> (removeCalls failed_world = 0
       \<or> removeCalls failed_world = 1 \<and> fs_remove (sample_env [''a'', ''bad'', ''c'']) = Some boom)
   \<and> result_world (zerox (sample_env [''a'', ''b'']) (sample_schedule 2) sample_args)
       = Some finished_world
   \<and> enters_try (sample_env [''a'', ''b'']) sample_args
   \<and> result_error (zerox (sample_env [''a'', ''b'']) (sample_schedule 2) sample_args) = None
   \<and> removeCalls finished_world = (if cleanup sample_args then 1 else 0)
   \<and> terminateCalls finished_world = (if correctOrientation sample_args then 1 else 0)"
proof -
  have w: "result_world (zerox (sample_env [''a'', ''bad'', ''c'']) (sample_schedule 3) throw_args)
     = Some failed_world" by code_simp
  have e: "enters_try (sample_env [''a'', ''bad'', ''c'']) throw_args" by code_simp
  have c: "correctOrientation throw_args" "cleanup throw_args" by code_simp+
  have r: "result_error (zerox (sample_env [''a'', ''bad'', ''c'']) (sample_schedule 3) throw_args)
       = Some boom" by code_simp
  have w': "result_world (zerox (sample_env [''a'', ''b'']) (sample_schedule 2) sample_args)
       = Some finished_world" by code_simp
  have e': "enters_try (sample_env [''a'', ''b'']) sample_args" by code_simp
  have r': "result_error (zerox (sample_env [''a'', ''b'']) (sample_schedule 2) sample_args) = None"
    by code_simp
  note t = teardown [OF w] and t' = teardown [OF w']
  have 1: "terminateCalls failed_world = (if correctOrientation throw_args then 1 else 0)"
    "\<not> workerPool failed_world" using t e by blast+
  have 2: "removeCalls failed_world = 0
       \<or> removeCalls failed_world = 1 \<and> fs_remove (sample_env [''a'', ''bad'', ''c'']) = Some boom"
    using t r by blast
  have 3: "removeCalls finished_world = (if cleanup sample_args then 1 else 0)"
    using t' r' by blast
  have 4: "terminateCalls finished_world = (if correctOrientation sample_args then 1 else 0)"
    using t' e' by blast
  show ?thesis using w e c r 1 2 w' e' r' 3 4 by (intro conjI)
qed

theorem temp_directory_left_counterexample:
  "cleanup throw_args
   \<and> result_error (zerox (sample_env [''a'', ''bad'', ''c'']) (sample_schedule 3) throw_args)
       = Some boom
   \<and> map_option removeCalls (result_world (zerox (sample_env [''a'', ''bad'', ''c''])
        (sample_schedule 3) throw_args)) = Some 0
   \<and> map_option tempDirectory (result_world (zerox (sample_env [''a'', ''bad'', ''c''])
        (sample_schedule 3) throw_args)) = Some True
   \<and> map_option terminateCalls (result_world (zerox (sample_env [''a'', ''bad'', ''c''])
        (sample_schedule 3) throw_args)) = Some 1"
  by code_simp

section \<open>Extraction tasks\<close>

lemma processExtraction_errorMode:
  "processExtraction E (a\<lparr>errorMode := m\<rparr>) input pn sch s = processExtraction E a input pn sch s"
  by (simp add: processExtraction_def)

lemma perPage_tasks_errorMode:
  "perPage_tasks E (a\<lparr>errorMode := m\<rparr>) sch i inputs s = perPage_tasks E a sch i inputs s"
proof (induction inputs arbitrary: i s)
  case Nil
  show ?case by simp
next
  case (Cons x xs)
  show ?case
    by (cases x) (simp_all add: processExtraction_errorMode Cons.IH split: prod.splits)
qed

lemma perPage_inputs_errorMode:
  "perPage_inputs (a\<lparr>errorMode := m\<rparr>) imgs ps = perPage_inputs a imgs ps"
  by (simp add: perPage_inputs_def)

lemma fullDoc_input_errorMode:
  "fullDoc_input (a\<lparr>errorMode := m\<rparr>) imgs ps = fullDoc_input a imgs ps"
  by (simp add: fullDoc_input_def)

lemma extractPerPage_errorMode: "extractPerPage (a\<lparr>errorMode := m\<rparr>) = extractPerPage a"
  by simp

lemma schema_errorMode: "schema (a\<lparr>errorMode := m\<rparr>) = schema a"
  by simp

lemma extraction_tasks_errorMode:
  "extraction_tasks E (a\<lparr>errorMode := m\<rparr>) sch imgs s = extraction_tasks E a sch imgs s"
  unfolding extraction_tasks_def perPage_tasks_errorMode perPage_inputs_errorMode
    fullDoc_input_errorMode extractPerPage_errorMode ..

lemma extraction_phase_errorMode:
  "extraction_phase E order (a\<lparr>errorMode := m\<rparr>) imgs s = extraction_phase E order a imgs s"
  unfolding extraction_phase_def extraction_tasks_errorMode schema_errorMode ..

lemma length_perPage_tasks:
  "length (fst (perPage_tasks E a sch i inputs s)) = length inputs"
proof (induction inputs arbitrary: i s)
  case Nil
  show ?case by simp
next
  case (Cons x xs)
  show ?case
  proof (cases x)
    case None
    then show ?thesis using Cons.IH [of "Suc i" s] by (auto split: prod.splits)
  next
    case (Some input)
    obtain r s1 where p: "processExtraction E a input (int i + 1) sch s = (r, s1)"
      by (cases "processExtraction E a input (int i + 1) sch s")
    then show ?thesis using Some Cons.IH [of "Suc i" s1] by (auto split: prod.splits)
  qed
qed

lemma length_extraction_tasks:
  "length (fst (extraction_tasks E a sch imgs s)) = task_count E a sch imgs s"
proof -
  obtain fd pp where sp: "splitSchema E sch (extractPerPage a) = (fd, pp)"
    by (cases "splitSchema E sch (extractPerPage a)")
  obtain rs1 s1 where t1: "(case pp of None \<Rightarrow> ([], s)
      | Some pps \<Rightarrow> perPage_tasks E a pps 0 (perPage_inputs a imgs (pages s)) s) = (rs1, s1)"
    by (cases "case pp of None \<Rightarrow> ([], s)
      | Some pps \<Rightarrow> perPage_tasks E a pps 0 (perPage_inputs a imgs (pages s)) s")
  have l1: "length rs1 = (case pp of None \<Rightarrow> 0
      | Some pps \<Rightarrow> length (perPage_inputs a imgs (pages s)))"
  proof (cases pp)
    case None
    then show ?thesis using t1 by auto
  next
    case (Some pps)
    then have "rs1 = fst (perPage_tasks E a pps 0 (perPage_inputs a imgs (pages s)) s)"
      using t1 by simp
    then show ?thesis using Some by (simp add: length_perPage_tasks)
  qed
  show ?thesis
  proof (cases fd)
    case None
    then show ?thesis using sp t1 l1 by (simp add: extraction_tasks_def task_count_def)
  next
    case (Some fds)
    then show ?thesis using sp t1 l1
      by (simp add: extraction_tasks_def task_count_def split: prod.splits)
  qed
qed

lemma resolved_None_iff: "resolved rs = None \<longleftrightarrow> (\<exists>e. Inl e \<in> set rs)"
  by (induction rs rule: resolved.induct) auto

lemma first_rejection_Some:
  "i \<in> set order \<Longrightarrow> i < length rs \<Longrightarrow> rs ! i = Inl e \<Longrightarrow> \<exists>e'. first_rejection order rs = Some e'"
  by (induction order) (auto split: sum.splits)

lemma first_rejection_failed:
  "first_rejection order rs = Some e' \<Longrightarrow> \<exists>j\<in>set order. j < length rs \<and> rs ! j = Inl e'"
  by (induction order) (auto split: sum.splits if_splits)

lemma first_rejection_first:
  assumes "i < length rs" and "rs ! i = Inl e"
    and "\<forall>j\<in>set pre. j < length rs \<longrightarrow> (\<exists>v. rs ! j = Inr v)"
  shows "first_rejection (pre @ i # post) rs = Some e"
  using assms(3)
proof (induction pre)
  case Nil
  show ?case using assms(1,2) by simp
next
  case (Cons j pre)
  then have ih: "first_rejection (pre @ i # post) rs = Some e" by simp
  show ?case
  proof (cases "j < length rs")
    case True
    with Cons.prems obtain v where "rs ! j = Inr v" by auto
    then show ?thesis using True ih by simp
  next
    case False
    then show ?thesis using ih by simp
  qed
qed

lemma promise_all_rejects:
  assumes "i < length rs" and "rs ! i = Inl e"
  shows "promise_all order rs = map_option Inl (first_rejection order rs)"
proof -
  have "Inl e \<in> set rs" using assms nth_mem by fastforce
  then have "resolved rs = None" unfolding resolved_None_iff by blast
  then show ?thesis by (simp add: promise_all_def)
qed

lemma extraction_phase_rejects:
  assumes "schema a = Some sch" and "extraction_tasks E a sch imgs s = (rs, st)"
    and "i < length rs" and "rs ! i = Inl e"
  shows "extraction_phase E order (a\<lparr>errorMode := m\<rparr>) imgs s
           = map_option (\<lambda>e'. (Inl e', st)) (first_rejection order rs)"
  unfolding extraction_phase_errorMode
  using assms(1,2) promise_all_rejects [OF assms(3,4), of order]
  by (cases "first_rejection order rs") (simp_all add: extraction_phase_def)

lemma perPage_tasks_nth:
  assumes "q < length inputs" and "inputs ! q = Some input"
  shows "fst (perPage_tasks E a sch k inputs s) ! q
           = map_sum id Some
               (fst (processExtraction E a input (int (k + q) + 1) sch
                       (snd (perPage_tasks E a sch k (take q inputs) s))))"
  using assms
proof (induction inputs arbitrary: q k s)
  case Nil
  then show ?case by simp
next
  case (Cons x xs)
  show ?case
  proof (cases q)
    case 0
    then show ?thesis using Cons.prems by (simp add: id_def split: prod.splits)
  next
    case (Suc q')
    then have q': "q' < length xs" "xs ! q' = Some input" using Cons.prems by simp_all
    show ?thesis
    proof (cases x)
      case None
      from Cons.IH [OF q', of "Suc k" s] show ?thesis
        using None Suc by (auto simp: id_def split: prod.splits)
    next
      case (Some y)
      obtain r s1 where p: "processExtraction E a y (int k + 1) sch s = (r, s1)"
        by (cases "processExtraction E a y (int k + 1) sch s")
      from Cons.IH [OF q', of "Suc k" s1] show ?thesis
        using Some Suc p by (auto simp: id_def split: prod.splits)
    qed
  qed
qed

lemma extraction_tasks_fullDoc:
  assumes "splitSchema E sch (extractPerPage a) = (Some fds, pp)"
    and "extraction_tasks E a sch imgs s = (rs, st)"
  shows "rs \<noteq> []
       \<and> last rs
           = fst (fullDocExtraction E (fullDoc_input a imgs (pages s)) fds
                    (snd (case pp of
                            None \<Rightarrow> ([], s)
                          | Some pps \<Rightarrow>
                              perPage_tasks E a pps 0 (perPage_inputs a imgs (pages s)) s)))"
  using assms by (auto simp: extraction_tasks_def split: prod.splits option.splits)

lemma zerox_process_extraction_error:
  assumes "(if correctOrientation a then prepareWorkersForImageProcessing E else None) = None"
    and "createModel E (modelProvider a) (credentials a) = None"
    and "ocr_phase E (ocr_events sched) a imgs initial_state = Some (Inr s)"
    and "extraction_phase E (extraction_order sched) a imgs s = Some (Inl e, st)"
  shows "zerox_process E sched a sel imgs w = Some (Inl e, w)"
  using assms by (simp add: zerox_process_def)

text \<open>
  C7.  An extraction task whose attempts are exhausted counts one failure and throws,
  whatever the error mode: the per-page task behind \<^verbatim>\<open>runRetries\<close>, the full-document
  task behind its single request.  Each task has the outcome of its own requests,
  whatever the tasks before it did: the outcome of a per-page task is that of
  \<^verbatim>\<open>processExtraction\<close> on its input, its error when its attempts are exhausted, and the
  last outcome is that of the full-document task.  When a task has failed, every task that the split of
  the schema starts has still run to its own outcome, none is cancelled, and these
  outcomes do not depend on the error mode; the phase fails, with the error of a task
  that failed: the one that failed first.  If no task that completes before task \<open>i\<close> has
  failed, the error of the phase is the error of task \<open>i\<close>, and it is the error that the
  processing of the images throws, before any output is written.
\<close>

theorem extraction_errors_propagate:
  "(runRetries (extraction_attempt E input pn sch) (maxRetries a - 1) (s, []) = (Inl e, s', res)
    \<longrightarrow> processExtraction E (a\<lparr>errorMode := m\<rparr>) input pn sch s
          = (Inl e, s'\<lparr>numFailedExtractionRequests := numFailedExtractionRequests s' + 1\<rparr>))
   \<and> (q < length inputs \<and> inputs ! q = Some input
    \<longrightarrow> length (fst (perPage_tasks E (a\<lparr>errorMode := m\<rparr>) sch k inputs s)) = length inputs
      \<and> fst (perPage_tasks E (a\<lparr>errorMode := m\<rparr>) sch k inputs s) ! q
          = map_sum id Some
              (fst (processExtraction E (a\<lparr>errorMode := m\<rparr>) input (int (k + q) + 1) sch
                      (snd (perPage_tasks E (a\<lparr>errorMode := m\<rparr>) sch k (take q inputs) s))))
      \<and> (runRetries (extraction_attempt E input (int (k + q) + 1) sch) (maxRetries a - 1)
            (snd (perPage_tasks E (a\<lparr>errorMode := m\<rparr>) sch k (take q inputs) s), [])
          = (Inl e, s', res)
          \<longrightarrow> fst (perPage_tasks E (a\<lparr>errorMode := m\<rparr>) sch k inputs s) ! q = Inl e))
   \<and> (splitSchema E sch (extractPerPage a) = (Some fds, pp)
      \<and> extraction_tasks E a sch imagePaths s = (rs, st)
    \<longrightarrow> rs \<noteq> []
      \<and> last rs
          = fst (fullDocExtraction E (fullDoc_input a imagePaths (pages s)) fds
                   (snd (case pp of
                           None \<Rightarrow> ([], s)
                         | Some pps \<Rightarrow>
                             perPage_tasks E a pps 0
                               (perPage_inputs a imagePaths (pages s)) s))))
   \<and> (getCompletion_EXTRACTION E (length (extractionRequests s)) input sch = Inl e
    \<longrightarrow> fst (fullDocExtraction E input sch s) = Inl e
      \<and> numFailedExtractionRequests (snd (fullDocExtraction E input sch s))
          = numFailedExtractionRequests s + 1)
   \<and> (schema a = Some sch \<and> extraction_tasks E a sch imagePaths s = (rs, st)
      \<and> i < length rs \<and> rs ! i = Inl e
    \<longrightarrow> length rs = task_count E a sch imagePaths s
      \<and> extraction_tasks E (a\<lparr>errorMode := m\<rparr>) sch imagePaths s = (rs, st)
      \<and> (\<forall>r. extraction_phase E order (a\<lparr>errorMode := m\<rparr>) imagePaths s = Some r
            \<longrightarrow> (\<exists>j e'. j \<in> set order \<and> j < length rs \<and> rs ! j = Inl e' \<and> r = (Inl e', st)))
      \<and> (i \<in> set order
            \<longrightarrow> (\<exists>j e'. j \<in> set order \<and> j < length rs \<and> rs ! j = Inl e'
                  \<and> extraction_phase E order (a\<lparr>errorMode := m\<rparr>) imagePaths s
                      = Some (Inl e', st)))
      \<and> (\<forall>pre post.
            order = pre @ i # post \<and> (\<forall>j\<in>set pre. j < length rs \<longrightarrow> (\<exists>v. rs ! j = Inr v))
            \<longrightarrow> extraction_phase E order (a\<lparr>errorMode := m\<rparr>) imagePaths s = Some (Inl e, st)
              \<and> (\<forall>sched sel w.
                    extraction_order sched = order
                    \<and> (if correctOrientation a then prepareWorkersForImageProcessing E else None)
                        = None
                    \<and> createModel E (modelProvider a) (credentials a) = None
                    \<and> ocr_phase E (ocr_events sched) (a\<lparr>errorMode := m\<rparr>) imagePaths
                          initial_state = Some (Inr s)
                    \<longrightarrow> zerox_process E sched (a\<lparr>errorMode := m\<rparr>) sel imagePaths w
                          = Some (Inl e, w))))"
proof (intro conjI impI; (elim conjE)?)
  assume "runRetries (extraction_attempt E input pn sch) (maxRetries a - 1) (s, []) = (Inl e, s', res)"
  then show "processExtraction E (a\<lparr>errorMode := m\<rparr>) input pn sch s
          = (Inl e, s'\<lparr>numFailedExtractionRequests := numFailedExtractionRequests s' + 1\<rparr>)"
    by (simp add: processExtraction_def)
next
  assume q: "q < length inputs" "inputs ! q = Some input"
  show "length (fst (perPage_tasks E (a\<lparr>errorMode := m\<rparr>) sch k inputs s)) = length inputs"
    by (rule length_perPage_tasks)
  show "fst (perPage_tasks E (a\<lparr>errorMode := m\<rparr>) sch k inputs s) ! q
          = map_sum id Some
              (fst (processExtraction E (a\<lparr>errorMode := m\<rparr>) input (int (k + q) + 1) sch
                      (snd (perPage_tasks E (a\<lparr>errorMode := m\<rparr>) sch k (take q inputs) s))))"
    by (rule perPage_tasks_nth [OF q])
  assume r: "runRetries (extraction_attempt E input (int (k + q) + 1) sch) (maxRetries a - 1)
              (snd (perPage_tasks E (a\<lparr>errorMode := m\<rparr>) sch k (take q inputs) s), [])
            = (Inl e, s', res)"
  have "fst (processExtraction E (a\<lparr>errorMode := m\<rparr>) input (int (k + q) + 1) sch
               (snd (perPage_tasks E (a\<lparr>errorMode := m\<rparr>) sch k (take q inputs) s))) = Inl e"
    using r by (simp add: processExtraction_def)
  then show "fst (perPage_tasks E (a\<lparr>errorMode := m\<rparr>) sch k inputs s) ! q = Inl e"
    unfolding perPage_tasks_nth [OF q] by simp
next
  assume "splitSchema E sch (extractPerPage a) = (Some fds, pp)"
    and "extraction_tasks E a sch imagePaths s = (rs, st)"
  from extraction_tasks_fullDoc [OF this]
  show "rs \<noteq> []"
    and "last rs
          = fst (fullDocExtraction E (fullDoc_input a imagePaths (pages s)) fds
                   (snd (case pp of
                           None \<Rightarrow> ([], s)
                         | Some pps \<Rightarrow>
                             perPage_tasks E a pps 0
                               (perPage_inputs a imagePaths (pages s)) s)))"
    by simp_all
next
  assume f: "getCompletion_EXTRACTION E (length (extractionRequests s)) input sch = Inl e"
  then show "fst (fullDocExtraction E input sch s) = Inl e"
    by (simp add: fullDocExtraction_def)
  show "numFailedExtractionRequests (snd (fullDocExtraction E input sch s))
          = numFailedExtractionRequests s + 1"
    using f by (simp add: fullDocExtraction_def)
next
  assume sc: "schema a = Some sch" and ts: "extraction_tasks E a sch imagePaths s = (rs, st)"
    and i: "i < length rs" "rs ! i = Inl e"
  show "length rs = task_count E a sch imagePaths s"
    using length_extraction_tasks [of E a sch imagePaths s] ts by simp
  show "extraction_tasks E (a\<lparr>errorMode := m\<rparr>) sch imagePaths s = (rs, st)"
    unfolding extraction_tasks_errorMode using ts .
  note ph = extraction_phase_rejects [OF sc ts i, of order m]
  show "\<forall>r. extraction_phase E order (a\<lparr>errorMode := m\<rparr>) imagePaths s = Some r
            \<longrightarrow> (\<exists>j e'. j \<in> set order \<and> j < length rs \<and> rs ! j = Inl e' \<and> r = (Inl e', st))"
    unfolding ph using first_rejection_failed [of order rs] by auto
  {
    assume "i \<in> set order"
    from first_rejection_Some [OF this i] obtain e' where e': "first_rejection order rs = Some e'"
      by blast
    from first_rejection_failed [OF this] e'
    show "\<exists>j e'. j \<in> set order \<and> j < length rs \<and> rs ! j = Inl e'
            \<and> extraction_phase E order (a\<lparr>errorMode := m\<rparr>) imagePaths s = Some (Inl e', st)"
      unfolding ph by auto
  }
  show "\<forall>pre post.
            order = pre @ i # post \<and> (\<forall>j\<in>set pre. j < length rs \<longrightarrow> (\<exists>v. rs ! j = Inr v))
            \<longrightarrow> extraction_phase E order (a\<lparr>errorMode := m\<rparr>) imagePaths s = Some (Inl e, st)
              \<and> (\<forall>sched sel w.
                    extraction_order sched = order
                    \<and> (if correctOrientation a then prepareWorkersForImageProcessing E else None)
                        = None
                    \<and> createModel E (modelProvider a) (credentials a) = None
                    \<and> ocr_phase E (ocr_events sched) (a\<lparr>errorMode := m\<rparr>) imagePaths
                          initial_state = Some (Inr s)
                    \<longrightarrow> zerox_process E sched (a\<lparr>errorMode := m\<rparr>) sel imagePaths w
                          = Some (Inl e, w))"
  proof (intro allI impI, elim conjE)
    fix pre post
    assume o: "order = pre @ i # post"
      and p: "\<forall>j\<in>set pre. j < length rs \<longrightarrow> (\<exists>v. rs ! j = Inr v)"
    have fr: "first_rejection order rs = Some e"
      unfolding o using first_rejection_first [OF i p] .
    have 1: "extraction_phase E order (a\<lparr>errorMode := m\<rparr>) imagePaths s = Some (Inl e, st)"
      unfolding ph fr by simp
    have 2: "zerox_process E sched (a\<lparr>errorMode := m\<rparr>) sel imagePaths w = Some (Inl e, w)"
      if "extraction_order sched = order"
        and "(if correctOrientation a then prepareWorkersForImageProcessing E else None) = None"
        and "createModel E (modelProvider a) (credentials a) = None"
        and "ocr_phase E (ocr_events sched) (a\<lparr>errorMode := m\<rparr>) imagePaths initial_state
               = Some (Inr s)"
      for sched sel w
      using that 1 by (intro zerox_process_extraction_error [where s = s and st = st]) simp_all
    show "extraction_phase E order (a\<lparr>errorMode := m\<rparr>) imagePaths s = Some (Inl e, st)
            \<and> (\<forall>sched sel w.
                  extraction_order sched = order
                  \<and> (if correctOrientation a then prepareWorkersForImageProcessing E else None)
                      = None
                  \<and> createModel E (modelProvider a) (credentials a) = None
                  \<and> ocr_phase E (ocr_events sched) (a\<lparr>errorMode := m\<rparr>) imagePaths
                        initial_state = Some (Inr s)
                  \<longrightarrow> zerox_process E sched (a\<lparr>errorMode := m\<rparr>) sel imagePaths w
                        = Some (Inl e, w))"
      using 1 2 by blast
  qed
qed

theorem extraction_errors_propagate_witness:
  "runRetries (extraction_attempt both_env (TextInput ''b'') 2 title_schema)
      (maxRetries schema_args - 1) (in_order_state, []) = (Inl refused, requested_extraction, [])
   \<and> processExtraction both_env (schema_args\<lparr>errorMode := THROW\<rparr>) (TextInput ''b'') 2
        title_schema in_order_state
       = (Inl refused,
          requested_extraction\<lparr>numFailedExtractionRequests :=
            numFailedExtractionRequests requested_extraction + 1\<rparr>)
   \<and> 0 < length [Some (TextInput ''b'')] \<and> [Some (TextInput ''b'')] ! 0 = Some (TextInput ''b'')
   \<and> fst (perPage_tasks both_env (schema_args\<lparr>errorMode := THROW\<rparr>) title_schema 1
             [Some (TextInput ''b'')] in_order_state) ! 0 = Inl refused
   \<and> splitSchema both_env title_schema (extractPerPage schema_args)
       = (Some title_schema, Some title_schema)
   \<and> last extraction_outcomes = Inr (Some [(''title'', JStr ''t'')])
   \<and> getCompletion_EXTRACTION both_env (length (extractionRequests in_order_state))
        (TextInput ''b'') title_schema = Inl refused
   \<and> fst (fullDocExtraction both_env (TextInput ''b'') title_schema in_order_state) = Inl refused
   \<and> numFailedExtractionRequests
        (snd (fullDocExtraction both_env (TextInput ''b'') title_schema in_order_state))
       = numFailedExtractionRequests in_order_state + 1
   \<and> errorMode schema_args = IGNORE
   \<and> schema schema_args = Some title_schema
   \<and> extraction_tasks both_env schema_args title_schema [''a'', ''b''] in_order_state
       = (extraction_outcomes, after_extraction)
   \<and> 1 < length extraction_outcomes
   \<and> extraction_outcomes ! 1 = Inl refused
   \<and> length extraction_outcomes
       = task_count both_env schema_args title_schema [''a'', ''b''] in_order_state
   \<and> extraction_tasks both_env (schema_args\<lparr>errorMode := THROW\<rparr>) title_schema [''a'', ''b'']
        in_order_state = (extraction_outcomes, after_extraction)
   \<and> [0, 1, 2] = [0] @ (1::nat) # [2]
   \<and> (\<exists>v. extraction_outcomes ! 0 = Inr v)
   \<and> extraction_phase both_env [0, 1, 2] (schema_args\<lparr>errorMode := THROW\<rparr>) [''a'', ''b'']
        in_order_state = Some (Inl refused, after_extraction)
   \<and> extraction_phase both_env [0, 1, 2] (schema_args\<lparr>errorMode := IGNORE\<rparr>) [''a'', ''b'']
        in_order_state = Some (Inl refused, after_extraction)
   \<and> extraction_order (sample_schedule 2) = [0, 1, 2]
   \<and> (if correctOrientation schema_args then prepareWorkersForImageProcessing both_env else None)
       = None
   \<and> createModel both_env (modelProvider schema_args) (credentials schema_args) = None
   \<and> ocr_phase both_env (ocr_events (sample_schedule 2)) (schema_args\<lparr>errorMode := IGNORE\<rparr>)
        [''a'', ''b''] initial_state = Some (Inr in_order_state)
   \<and> zerox_process both_env (sample_schedule 2) (schema_args\<lparr>errorMode := IGNORE\<rparr>)
        (Single (- 1)) [''a'', ''b''] failed_world = Some (Inl refused, failed_world)
   \<and> result_error (zerox both_env (sample_schedule 2) schema_args) = Some refused"
proof -
  have r: "runRetries (extraction_attempt both_env (TextInput ''b'') 2 title_schema)
      (maxRetries schema_args - 1) (in_order_state, []) = (Inl refused, requested_extraction, [])"
    by code_simp
  have g: "getCompletion_EXTRACTION both_env (length (extractionRequests in_order_state))
        (TextInput ''b'') title_schema = Inl refused" by code_simp
  have md: "errorMode schema_args = IGNORE" by code_simp
  have sc: "schema schema_args = Some title_schema" by code_simp
  have ts: "extraction_tasks both_env schema_args title_schema [''a'', ''b''] in_order_state
       = (extraction_outcomes, after_extraction)" by code_simp
  have i: "1 < length extraction_outcomes" "extraction_outcomes ! 1 = Inl refused"
    by code_simp+
  have o: "[0, 1, 2] = [0] @ (1::nat) # [2]" by simp
  have v: "\<exists>v. extraction_outcomes ! 0 = Inr v" by (simp add: extraction_outcomes_def)
  then have pre: "\<forall>j\<in>set [0::nat]. j < length extraction_outcomes
                    \<longrightarrow> (\<exists>v. extraction_outcomes ! j = Inr v)"
    by simp
  have so: "extraction_order (sample_schedule 2) = [0, 1, 2]" by code_simp
  have pw: "(if correctOrientation schema_args then prepareWorkersForImageProcessing both_env
             else None) = None" by code_simp
  have cm: "createModel both_env (modelProvider schema_args) (credentials schema_args) = None"
    by code_simp
  have oc: "ocr_phase both_env (ocr_events (sample_schedule 2)) (schema_args\<lparr>errorMode := IGNORE\<rparr>)
        [''a'', ''b''] initial_state = Some (Inr in_order_state)"
    by code_simp
  have q: "0 < length [Some (TextInput ''b'')]"
    "[Some (TextInput ''b'')] ! 0 = Some (TextInput ''b'')" by simp_all
  have r': "runRetries (extraction_attempt both_env (TextInput ''b'') (int (1 + 0) + 1) title_schema)
      (maxRetries schema_args - 1)
      (snd (perPage_tasks both_env (schema_args\<lparr>errorMode := THROW\<rparr>) title_schema 1
              (take 0 [Some (TextInput ''b'')]) in_order_state), [])
      = (Inl refused, requested_extraction, [])"
    by code_simp
  note t = extraction_errors_propagate [where E = both_env and input = "TextInput ''b''"
      and pn = 2 and sch = title_schema and a = schema_args and s = in_order_state
      and e = refused and s' = requested_extraction and res = "[]" and m = THROW
      and imagePaths = "[''a'', ''b'']" and rs = extraction_outcomes and st = after_extraction
      and i = 1 and order = "[0, 1, 2]" and q = 0 and k = 1
      and inputs = "[Some (TextInput ''b'')]"]
  have 0: "fst (perPage_tasks both_env (schema_args\<lparr>errorMode := THROW\<rparr>) title_schema 1
             [Some (TextInput ''b'')] in_order_state) ! 0 = Inl refused"
    using t q r' by blast
  have sp: "splitSchema both_env title_schema (extractPerPage schema_args)
              = (Some title_schema, Some title_schema)"
    by code_simp
  have "last extraction_outcomes
          = fst (fullDocExtraction both_env
                   (fullDoc_input schema_args [''a'', ''b''] (pages in_order_state)) title_schema
                   (snd (case Some title_schema of
                           None \<Rightarrow> ([], in_order_state)
                         | Some pps \<Rightarrow>
                             perPage_tasks both_env schema_args pps 0
                               (perPage_inputs schema_args [''a'', ''b''] (pages in_order_state))
                               in_order_state)))"
    using extraction_errors_propagate [where E = both_env and sch = title_schema
        and a = schema_args and s = in_order_state and fds = title_schema
        and pp = "Some title_schema" and imagePaths = "[''a'', ''b'']"
        and rs = extraction_outcomes and st = after_extraction] sp
      \<open>extraction_tasks both_env schema_args title_schema [''a'', ''b''] in_order_state
         = (extraction_outcomes, after_extraction)\<close>
    by blast
  also have "\<dots> = Inr (Some [(''title'', JStr ''t'')])" by code_simp
  finally have lo: "last extraction_outcomes = Inr (Some [(''title'', JStr ''t'')])" .
  note u = extraction_errors_propagate [where E = both_env and input = "TextInput ''b''"
      and pn = 2 and sch = title_schema and a = schema_args and s = in_order_state
      and e = refused and s' = requested_extraction and res = "[]" and m = IGNORE
      and imagePaths = "[''a'', ''b'']" and rs = extraction_outcomes and st = after_extraction
      and i = 1 and order = "[0, 1, 2]"]
  have 1: "processExtraction both_env (schema_args\<lparr>errorMode := THROW\<rparr>) (TextInput ''b'') 2
        title_schema in_order_state
       = (Inl refused,
          requested_extraction\<lparr>numFailedExtractionRequests :=
            numFailedExtractionRequests requested_extraction + 1\<rparr>)"
    using t r by blast
  have 2: "fst (fullDocExtraction both_env (TextInput ''b'') title_schema in_order_state)
             = Inl refused"
    "numFailedExtractionRequests
        (snd (fullDocExtraction both_env (TextInput ''b'') title_schema in_order_state))
       = numFailedExtractionRequests in_order_state + 1"
    using t g by blast+
  have 3: "length extraction_outcomes
       = task_count both_env schema_args title_schema [''a'', ''b''] in_order_state"
    "extraction_tasks both_env (schema_args\<lparr>errorMode := THROW\<rparr>) title_schema [''a'', ''b'']
        in_order_state = (extraction_outcomes, after_extraction)"
    using t sc ts i by blast+
  have 4: "extraction_phase both_env [0, 1, 2] (schema_args\<lparr>errorMode := THROW\<rparr>) [''a'', ''b'']
        in_order_state = Some (Inl refused, after_extraction)"
    using t sc ts i o pre by blast
  have 5: "extraction_phase both_env [0, 1, 2] (schema_args\<lparr>errorMode := IGNORE\<rparr>) [''a'', ''b'']
        in_order_state = Some (Inl refused, after_extraction)"
    using u sc ts i o pre by blast
  have 6: "zerox_process both_env (sample_schedule 2) (schema_args\<lparr>errorMode := IGNORE\<rparr>)
        (Single (- 1)) [''a'', ''b''] failed_world = Some (Inl refused, failed_world)"
    using u sc ts i o pre so pw cm oc by blast
  have 7: "result_error (zerox both_env (sample_schedule 2) schema_args) = Some refused"
    by code_simp
  show ?thesis using r 1 q 0 sp lo g 2 md sc ts i 3 o v 4 5 so pw cm oc 6 7 by (intro conjI)
qed

end
